theory Spec2Isabelle
  imports Main "HOL-Library.Multiset"
begin

section \<open>Python strings\<close>

text \<open>
  A Python \<open>str\<close> is a \<open>string\<close>; an f-string is a concatenation. The helpers below are
  the \<open>str\<close> and \<open>os.path\<close> methods that \<open>csv_transform.py\<close> calls, on ASCII text.
\<close>

definition startswith :: "string \<Rightarrow> string \<Rightarrow> bool" where
  "startswith s p = (take (length p) s = p)"

text \<open>\<open>s.find(sub)\<close>: the index of the first occurrence of \<open>sub\<close>, or \<open>-1\<close>.\<close>

fun find_from :: "string \<Rightarrow> string \<Rightarrow> int \<Rightarrow> int" where
  "find_from sub [] i = (if sub = [] then i else - 1)"
| "find_from sub (c # cs) i =
     (if startswith (c # cs) sub then i else find_from sub cs (i + 1))"

definition py_find :: "string \<Rightarrow> string \<Rightarrow> int" where
  "py_find s sub = find_from sub s 0"

text \<open>\<open>s.split(sep)\<close> for a non-empty separator (the program only splits on
  \<open>"gs://"\<close>, \<open>"/"\<close>, \<open>","\<close> and \<open>"gs://<bucket>/"\<close>).\<close>

fun split_aux :: "string \<Rightarrow> string \<Rightarrow> string \<Rightarrow> string list" where
  "split_aux sep acc [] = [rev acc]"
| "split_aux sep acc (c # cs) =
     (if startswith (c # cs) sep
      then rev acc # split_aux sep [] (drop (length sep - 1) cs)
      else split_aux sep (c # acc) cs)"

definition py_split :: "string \<Rightarrow> string \<Rightarrow> string list" where
  "py_split s sep = split_aux sep [] s"

text \<open>\<open>s.replace(old, new)\<close>; with an empty \<open>old\<close> Python puts \<open>new\<close> around every
  character.\<close>

fun replace_aux :: "string \<Rightarrow> string \<Rightarrow> string \<Rightarrow> string" where
  "replace_aux old new [] = []"
| "replace_aux old new (c # cs) =
     (if startswith (c # cs) old
      then new @ replace_aux old new (drop (length old - 1) cs)
      else c # replace_aux old new cs)"

definition py_replace :: "string \<Rightarrow> string \<Rightarrow> string \<Rightarrow> string" where
  "py_replace s old new =
     (if old = [] then new @ concat (map (\<lambda>c. c # new) s) else replace_aux old new s)"

definition is_space :: "char \<Rightarrow> bool" where
  "is_space c = (c \<in> set [CHR '' '', CHR 0x09, CHR 0x0A, CHR 0x0B, CHR 0x0C, CHR 0x0D,
                             CHR 0x1C, CHR 0x1D, CHR 0x1E, CHR 0x1F])"

definition py_strip :: "string \<Rightarrow> string" where
  "py_strip s = rev (dropWhile is_space (rev (dropWhile is_space s)))"

text \<open>\<open>os.path.basename\<close> and \<open>os.path.split\<close> of \<open>posixpath\<close>: the cut is after the last
  slash; \<open>split\<close> strips the trailing slashes of a head that is not all slashes.\<close>

definition basename :: "string \<Rightarrow> string" where
  "basename p = rev (takeWhile (\<lambda>c. c \<noteq> CHR ''/'') (rev p))"

definition rstrip_slash :: "string \<Rightarrow> string" where
  "rstrip_slash s = rev (dropWhile (\<lambda>c. c = CHR ''/'') (rev s))"

definition os_path_split :: "string \<Rightarrow> string \<times> string" where
  "os_path_split p =
     (let tail = basename p;
          head = take (length p - length tail) p
      in (if head = [] \<or> list_all (\<lambda>c. c = CHR ''/'') head then head else rstrip_slash head,
          tail))"

text \<open>\<open>str(n)\<close> of an integer and \<open>str.zfill\<close>.\<close>

definition digit_char :: "nat \<Rightarrow> char" where
  "digit_char d = char_of (48 + d)"

fun str_nat :: "nat \<Rightarrow> string" where
  "str_nat n = (if n < 10 then [digit_char n] else str_nat (n div 10) @ [digit_char (n mod 10)])"

definition str_int :: "int \<Rightarrow> string" where
  "str_int i = (if i < 0 then CHR ''-'' # str_nat (nat (- i)) else str_nat (nat i))"

definition zfill :: "string \<Rightarrow> nat \<Rightarrow> string" where
  "zfill s width =
     (case s of
        c # cs \<Rightarrow>
          (if c = CHR ''-'' \<or> c = CHR ''+''
           then c # replicate (width - length s) CHR ''0'' @ cs
           else replicate (width - length s) CHR ''0'' @ s)
      | [] \<Rightarrow> replicate width CHR ''0'')"

text \<open>\<open>int(s)\<close> of a string: surrounding whitespace, an optional sign, decimal digits
  with single underscores between them; anything else raises \<open>ValueError\<close> (here
  \<open>None\<close>).\<close>

definition is_digit :: "char \<Rightarrow> bool" where
  "is_digit c = (c \<in> set ''0123456789'')"

definition digits_ok :: "string \<Rightarrow> bool" where
  "digits_ok b =
     (b \<noteq> [] \<and> is_digit (hd b) \<and> is_digit (last b)
      \<and> list_all (\<lambda>c. is_digit c \<or> c = CHR ''_'') b
      \<and> list_all (\<lambda>(c, d). \<not> (c = CHR ''_'' \<and> d = CHR ''_'')) (zip b (tl b)))"

definition digits_val :: "string \<Rightarrow> int" where
  "digits_val b = foldl (\<lambda>a c. 10 * a + (int (of_char c) - 48)) 0 (filter is_digit b)"

definition py_int :: "string \<Rightarrow> int option" where
  "py_int s =
     (let t = py_strip s;
          neg = (t \<noteq> [] \<and> hd t = CHR ''-'');
          body = (if t \<noteq> [] \<and> (hd t = CHR ''-'' \<or> hd t = CHR ''+'') then tl t else t)
      in if digits_ok body then Some (if neg then - digits_val body else digits_val body)
         else None)"

section \<open>The world: local files, the object store, and what was called\<close>

text \<open>
  A manifest row is \<open>(pathname, guid, batchnumber)\<close>. A file holds text lines, a saved
  data frame (\<open>DataFrame.to_csv\<close> followed by \<open>pandas.read_csv\<close> gives the rows back; the CSV
  text itself is not modelled), or a tar archive (member path and lines).
  The local file system is a list of paths with what they hold. The calls that read,
  write, copy and delete files take a path as written (the program builds each of them
  from the same strings every time); for them a directory exists when it was created or
  when something lies under it. The program writes only below the staging folders that
  \<open>main\<close> creates first; a write below a missing directory and permissions are outside
  the model, so writing succeeds. \<open>os.path.exists\<close> and \<open>os.makedirs\<close> are taken as a
  parameter of the pipeline (subsection Folders). The object store lists its
  objects in the order it holds them. Every call that reaches outside the process is
  appended to \<open>trace\<close> when it is made, whether or not it then raises. Logging is not
  modelled.
\<close>

type_synonym row = "string \<times> string \<times> int"

text \<open>Names for the strings the program passes around.\<close>

type_synonym bucket = string
type_synonym path = string
type_synonym folder = string

datatype content = Text "string list" | Frame "row list" | Tar "(string \<times> string list) list"

datatype node = Dir | File content

datatype error =
    IndexError | ValueError | ZeroDivisionError | KeyError
  | FileNotFoundError | FileExistsError | IsADirectoryError | NotADirectoryError
  | ReadError | NotFound | CalledProcessError | OSError

datatype event =
    GcsList string string
  | GcsDownload string string string
  | GcsUpload string string string
  | GcsDelete string "string list"
  | OsMakedirs string
  | OsUnlink string
  | OsRmtree string
  | WriteFile string
  | ReadFile string
  | TarExtract string string
  | CopyFile string string
  | Shell string

record world =
  localfs :: "(string \<times> node) list"
  gcs :: "((string \<times> string) \<times> content) list"
  trace :: "event list"

datatype 'a result = Done 'a world | Raised error world

definition log_event :: "event \<Rightarrow> world \<Rightarrow> world" where
  "log_event e w = w\<lparr>trace := trace w @ [e]\<rparr>"

text \<open>Statements in sequence: the first that raises ends the run.\<close>

fun run_steps :: "(world \<Rightarrow> unit result) list \<Rightarrow> world \<Rightarrow> unit result" where
  "run_steps [] w = Done () w"
| "run_steps (f # fs) w =
     (case f w of Done u w' \<Rightarrow> run_steps fs w' | Raised e w' \<Rightarrow> Raised e w')"

text \<open>A \<open>for\<close> loop over a list, with the variables it updates as \<open>s\<close>.\<close>

fun for_loop :: "('a \<Rightarrow> 's \<Rightarrow> world \<Rightarrow> 's result) \<Rightarrow> 'a list \<Rightarrow> 's \<Rightarrow> world \<Rightarrow> 's result" where
  "for_loop body [] s w = Done s w"
| "for_loop body (x # xs) s w =
     (case body x s w of Done s' w' \<Rightarrow> for_loop body xs s' w' | Raised e w' \<Rightarrow> Raised e w')"

subsection \<open>Local files\<close>

definition under :: "string \<Rightarrow> string \<Rightarrow> bool" where
  "under d p = startswith p (d @ ''/'')"

definition is_dir :: "(string \<times> node) list \<Rightarrow> string \<Rightarrow> bool" where
  "is_dir fs p = (map_of fs p = Some Dir \<or> list_ex (\<lambda>e. under p (fst e)) fs)"

definition fs_remove :: "string \<Rightarrow> (string \<times> node) list \<Rightarrow> (string \<times> node) list" where
  "fs_remove p fs = filter (\<lambda>e. fst e \<noteq> p) fs"

definition fs_put :: "string \<Rightarrow> node \<Rightarrow> (string \<times> node) list \<Rightarrow> (string \<times> node) list" where
  "fs_put p n fs = fs_remove p fs @ [(p, n)]"

definition write_file :: "string \<Rightarrow> content \<Rightarrow> world \<Rightarrow> unit result" where
  "write_file p c w =
     (let w1 = log_event (WriteFile p) w
      in Done () (w1\<lparr>localfs := fs_put p (File c) (localfs w1)\<rparr>))"

definition read_file :: "string \<Rightarrow> world \<Rightarrow> content result" where
  "read_file p w =
     (let w1 = log_event (ReadFile p) w
      in case map_of (localfs w1) p of
           Some (File c) \<Rightarrow> Done c w1
         | Some Dir \<Rightarrow> Raised IsADirectoryError w1
         | None \<Rightarrow> Raised (if is_dir (localfs w1) p then IsADirectoryError
                              else FileNotFoundError) w1)"

definition os_unlink :: "string \<Rightarrow> world \<Rightarrow> unit result" where
  "os_unlink p w =
     (let w1 = log_event (OsUnlink p) w
      in case map_of (localfs w1) p of
           Some (File c) \<Rightarrow> Done () (w1\<lparr>localfs := fs_remove p (localfs w1)\<rparr>)
         | Some Dir \<Rightarrow> Raised IsADirectoryError w1
         | None \<Rightarrow> Raised (if is_dir (localfs w1) p then IsADirectoryError
                              else FileNotFoundError) w1)"

definition shutil_rmtree :: "string \<Rightarrow> world \<Rightarrow> unit result" where
  "shutil_rmtree p w =
     (let w1 = log_event (OsRmtree p) w
      in if is_dir (localfs w1) p
         then Done () (w1\<lparr>localfs := filter (\<lambda>e. fst e \<noteq> p \<and> \<not> under p (fst e)) (localfs w1)\<rparr>)
         else Raised (if map_of (localfs w1) p = None then FileNotFoundError
                      else NotADirectoryError) w1)"

definition shutil_copyfile :: "string \<Rightarrow> string \<Rightarrow> world \<Rightarrow> unit result" where
  "shutil_copyfile src dst w =
     (let w1 = log_event (CopyFile src dst) w
      in case map_of (localfs w1) src of
           Some (File c) \<Rightarrow> Done () (w1\<lparr>localfs := fs_put dst (File c) (localfs w1)\<rparr>)
         | Some Dir \<Rightarrow> Raised IsADirectoryError w1
         | None \<Rightarrow> Raised (if is_dir (localfs w1) src then IsADirectoryError
                              else FileNotFoundError) w1)"

text \<open>\<open>tarfile.open(p)\<close> and \<open>extractall(path=dest)\<close>: every member is written under
  \<open>dest\<close>.\<close>

definition tar_extractall :: "string \<Rightarrow> string \<Rightarrow> world \<Rightarrow> unit result" where
  "tar_extractall p dest w =
     (let w1 = log_event (TarExtract p dest) w
      in case map_of (localfs w1) p of
           Some (File (Tar members)) \<Rightarrow>
             Done () (w1\<lparr>localfs :=
               foldl (\<lambda>fs m. fs_put (dest @ ''/'' @ fst m) (File (Text (snd m))) fs)
                 (localfs w1) members\<rparr>)
         | Some (File c) \<Rightarrow> Raised ReadError w1
         | Some Dir \<Rightarrow> Raised IsADirectoryError w1
         | None \<Rightarrow> Raised (if is_dir (localfs w1) p then IsADirectoryError
                              else FileNotFoundError) w1)"

text \<open>\<open>pandas.read_csv(p, sep="|")\<close>: the rows of a saved frame; a file that is not one has
  no \<open>pathname\<close> column, and the lookup \<open>df["pathname"]\<close> raises \<open>KeyError\<close>.\<close>

definition read_csv :: "string \<Rightarrow> world \<Rightarrow> (row list) result" where
  "read_csv p w =
     (case read_file p w of
        Done (Frame rows) w1 \<Rightarrow> Done rows w1
      | Done c w1 \<Rightarrow> Raised KeyError w1
      | Raised e w1 \<Rightarrow> Raised e w1)"

subsection \<open>Folders\<close>

text \<open>
  \<open>os.path.exists\<close> and \<open>os.makedirs\<close> are calls into the operating system, whose answer
  depends on more than the program can see. The pipeline takes them as the parameter
  \<open>os\<close>: functions of the local files alone, \<open>os.makedirs\<close> returning the files it leaves
  and the error it raises, if any (\<open>OSError\<close> stands for a refusal that has no class of
  its own here, such as a missing permission). \<open>os.path.isdir\<close>, which the program does
  not call, is there to say what a made folder is.
\<close>

type_synonym files = "(string \<times> node) list"

record os_calls =
  os_path_exists :: "files \<Rightarrow> path \<Rightarrow> bool"
  os_path_isdir :: "files \<Rightarrow> path \<Rightarrow> bool"
  os_makedirs :: "path \<Rightarrow> files \<Rightarrow> files \<times> error option"

definition makedirs_call :: "os_calls \<Rightarrow> path \<Rightarrow> world \<Rightarrow> unit result" where
  "makedirs_call os p w =
     (let w1 = log_event (OsMakedirs p) w;
          r = os_makedirs os p (localfs w1)
      in case snd r of
           None \<Rightarrow> Done () (w1\<lparr>localfs := fst r\<rparr>)
         | Some e \<Rightarrow> Raised e (w1\<lparr>localfs := fst r\<rparr>))"

text \<open>
  \<open>posix\<close> is the behaviour of a POSIX system with one process, in which every directory
  may be written to. A path is resolved component by component: it is absolute when it
  starts with a slash, and empty components and \<open>.\<close> are skipped, so that \<open>/r\<close>, \<open>/r/\<close>
  and \<open>//r/.\<close> are one place. The empty path and a path with a NUL character exist
  nowhere. A path below a regular file does not exist, and neither does a regular file
  named with a trailing slash or \<open>.\<close>. Not modelled: the component \<open>..\<close> (read as a name),
  symbolic links and files that are neither regular files nor directories, permissions,
  and the limits on the length of a name or of a path.
\<close>

fun split_slash :: "string \<Rightarrow> string list" where
  "split_slash [] = [[]]"
| "split_slash (c # cs) =
     (if c = CHR ''/'' then [] # split_slash cs
      else (c # hd (split_slash cs)) # tl (split_slash cs))"

definition path_parts :: "path \<Rightarrow> string list" where
  "path_parts p = filter (\<lambda>c. c \<noteq> [] \<and> c \<noteq> ''.'') (split_slash p)"

type_synonym location = "bool \<times> string list"

definition location_of :: "path \<Rightarrow> location" where
  "location_of p = (startswith p ''/'', path_parts p)"

fun join_parts :: "string list \<Rightarrow> string" where
  "join_parts [] = []"
| "join_parts [c] = c"
| "join_parts (c # d # ds) = c @ ''/'' @ join_parts (d # ds)"

definition text_of :: "location \<Rightarrow> path" where
  "text_of k = (if fst k then ''/'' else []) @ join_parts (snd k)"

definition node_at :: "files \<Rightarrow> location \<Rightarrow> node option" where
  "node_at fs k = map_of (map (\<lambda>e. (location_of (fst e), snd e)) fs) k"

definition file_at :: "files \<Rightarrow> location \<Rightarrow> bool" where
  "file_at fs k = (case node_at fs k of Some (File c) \<Rightarrow> snd k \<noteq> [] | _ \<Rightarrow> False)"

text \<open>\<open>below d k\<close>: the place \<open>k\<close> lies somewhere under the place \<open>d\<close>.\<close>

definition below :: "location \<Rightarrow> location \<Rightarrow> bool" where
  "below d k = (fst k = fst d \<and> length (snd d) < length (snd k)
                 \<and> take (length (snd d)) (snd k) = snd d)"

text \<open>A directory: the root or the current directory, a folder that was made, or a
  place with something under it.\<close>

definition dir_at :: "files \<Rightarrow> location \<Rightarrow> bool" where
  "dir_at fs k =
     (snd k = [] \<or> (\<not> file_at fs k
        \<and> (node_at fs k = Some Dir \<or> list_ex (\<lambda>e. below k (location_of (fst e))) fs)))"

text \<open>One of the places above \<open>k\<close> holds a regular file.\<close>

definition file_above :: "files \<Rightarrow> location \<Rightarrow> bool" where
  "file_above fs k = list_ex (\<lambda>n. file_at fs (fst k, take n (snd k))) [1..<length (snd k)]"

text \<open>The path ends in a slash or in \<open>.\<close>, so it can only name a directory; and, for the
  error that \<open>mkdir\<close> gives on a regular file, whether a \<open>.\<close> stands after the last name.\<close>

definition wants_dir :: "path \<Rightarrow> bool" where
  "wants_dir p = (last (split_slash p) = [] \<or> last (split_slash p) = ''.'')"

definition dot_last :: "path \<Rightarrow> bool" where
  "dot_last p = (''.'' \<in> set (takeWhile (\<lambda>c. c = [] \<or> c = ''.'') (rev (split_slash p))))"

definition posix_exists :: "files \<Rightarrow> path \<Rightarrow> bool" where
  "posix_exists fs p =
     (p \<noteq> [] \<and> CHR 0x00 \<notin> set p \<and> \<not> file_above fs (location_of p)
      \<and> (dir_at fs (location_of p) \<or> (file_at fs (location_of p) \<and> \<not> wants_dir p)))"

definition posix_isdir :: "files \<Rightarrow> path \<Rightarrow> bool" where
  "posix_isdir fs p =
     (p \<noteq> [] \<and> CHR 0x00 \<notin> set p \<and> \<not> file_above fs (location_of p)
      \<and> dir_at fs (location_of p))"

text \<open>
  \<open>os.makedirs(name)\<close> goes up to the deepest part of \<open>name\<close> that exists and calls
  \<open>mkdir\<close> from there down, one component at a time; the first \<open>mkdir\<close> that fails
  raises, and the folders made before it stay. \<open>make_dirs\<close> walks the components \<open>c # cs\<close>
  that are left, below the place \<open>made\<close>: a name with a NUL character is refused by
  Python (\<open>ValueError\<close>); a regular file in the way gives \<open>NotADirectoryError\<close> (or, when
  it is the target itself, \<open>FileExistsError\<close>, as does a target that is a directory);
  a missing component is made.
\<close>

fun make_dirs :: "bool \<Rightarrow> bool \<Rightarrow> string list \<Rightarrow> string list \<Rightarrow> files \<Rightarrow> files \<times> error option" where
  "make_dirs ab dot made [] fs = (fs, None)"
| "make_dirs ab dot made (c # cs) fs =
     (if CHR 0x00 \<in> set c then (fs, Some ValueError)
      else if file_at fs (ab, made @ [c]) then
        (fs, Some (if cs = [] then (if dot then NotADirectoryError else FileExistsError)
                   else if CHR 0x00 \<in> set (hd cs) then ValueError
                   else NotADirectoryError))
      else if dir_at fs (ab, made @ [c]) then
        (if cs = [] then (fs, Some FileExistsError) else make_dirs ab dot (made @ [c]) cs fs)
      else make_dirs ab dot (made @ [c]) cs (fs @ [(text_of (ab, made @ [c]), Dir)]))"

definition posix_makedirs :: "path \<Rightarrow> files \<Rightarrow> files \<times> error option" where
  "posix_makedirs p fs =
     (if p = [] then (fs, Some FileNotFoundError)
      else if path_parts p = [] then (fs, Some FileExistsError)
      else make_dirs (startswith p ''/'') (dot_last p) [] (path_parts p) fs)"

definition posix :: os_calls where
  "posix = \<lparr>os_path_exists = posix_exists, os_path_isdir = posix_isdir,
            os_makedirs = posix_makedirs\<rparr>"

subsection \<open>The object store\<close>

text \<open>\<open>bucket.list_blobs(prefix=...)\<close>: the names of the bucket's objects that start with
  the prefix. \<open>str(blob)\<close> is \<open><Blob: bucket, name, generation>\<close>; the program reads the
  name back as \<open>str(blob).split(",")[1].strip()\<close> (the generation stands after the second
  comma and plays no part).\<close>

definition list_blobs :: "string \<Rightarrow> string \<Rightarrow> world \<Rightarrow> string list" where
  "list_blobs bucket prefix w =
     map (\<lambda>e. snd (fst e))
       (filter (\<lambda>e. fst (fst e) = bucket \<and> startswith (snd (fst e)) prefix) (gcs w))"

definition str_blob :: "string \<Rightarrow> string \<Rightarrow> string" where
  "str_blob bucket name = ''<Blob: '' @ bucket @ '', '' @ name @ '', 1>''"

definition blob_filename :: "string \<Rightarrow> string \<Rightarrow> string option" where
  "blob_filename bucket name =
     (case py_split (str_blob bucket name) '','' of
        a # b # rest \<Rightarrow> Some (py_strip b)
      | _ \<Rightarrow> None)"

definition gcs_put :: "string \<Rightarrow> string \<Rightarrow> content \<Rightarrow> ((string \<times> string) \<times> content) list
    \<Rightarrow> ((string \<times> string) \<times> content) list" where
  "gcs_put bucket name c store =
     (if list_ex (\<lambda>e. fst e = (bucket, name)) store
      then map (\<lambda>e. if fst e = (bucket, name) then ((bucket, name), c) else e) store
      else store @ [((bucket, name), c)])"

text \<open>\<open>str.split(location, "gs://")[1].split("/")[0]\<close>.\<close>

definition bucket_of :: "string \<Rightarrow> string option" where
  "bucket_of location =
     (case py_split location ''gs://'' of
        a # b # rest \<Rightarrow> (case py_split b ''/'' of c # cs \<Rightarrow> Some c | [] \<Rightarrow> None)
      | _ \<Rightarrow> None)"

definition download_file_gcs :: "string \<Rightarrow> path \<Rightarrow> folder \<Rightarrow> world \<Rightarrow> unit result" where
  "download_file_gcs project_id source_location destination_folder w =
     (let object_name = basename source_location;
          dest_object = destination_folder @ ''/'' @ object_name
      in case bucket_of source_location of
           None \<Rightarrow> Raised IndexError w
         | Some bucket_name \<Rightarrow>
             (case py_split source_location (''gs://'' @ bucket_name @ ''/'') of
                a # source_object_path # rest \<Rightarrow>
                  (let w1 = log_event (GcsDownload bucket_name source_object_path dest_object) w
                   in case map_of (gcs w1) (bucket_name, source_object_path) of
                        None \<Rightarrow> Raised NotFound w1
                      | Some c \<Rightarrow> write_file dest_object c w1)
              | _ \<Rightarrow> Raised IndexError w))"

definition upload_file_to_gcs :: "path \<Rightarrow> bucket \<Rightarrow> path \<Rightarrow> world \<Rightarrow> unit result" where
  "upload_file_to_gcs file_path gcs_bucket gcs_path w =
     (let w1 = log_event (GcsUpload file_path gcs_bucket gcs_path) w
      in case read_file file_path w1 of
           Raised e w2 \<Rightarrow> Raised e w2
         | Done c w2 \<Rightarrow> Done () (w2\<lparr>gcs := gcs_put gcs_bucket gcs_path c (gcs w2)\<rparr>))"

definition remove_gcs_path :: "bucket \<Rightarrow> path \<Rightarrow> world \<Rightarrow> unit result" where
  "remove_gcs_path gcs_bucket gcs_path w =
     (let drop_path = fst (os_path_split gcs_path);
          w1 = log_event (GcsList gcs_bucket (drop_path @ ''/'')) w;
          blobs = list_blobs gcs_bucket (drop_path @ ''/'') w1;
          w2 = log_event (GcsDelete gcs_bucket blobs) w1
      in Done () (w2\<lparr>gcs :=
           filter (\<lambda>e. \<not> (fst (fst e) = gcs_bucket \<and> snd (fst e) \<in> set blobs)) (gcs w2)\<rparr>))"

section \<open>The shell\<close>

text \<open>
  \<open>subprocess.check_call([cmd], shell=True)\<close> hands \<open>cmd\<close> to \<open>/bin/sh -c\<close> and raises
  \<open>CalledProcessError\<close> when the exit status is not zero. What the shell does is a
  parameter \<open>sh\<close> of the functions that call it.
\<close>

type_synonym shell = "string \<Rightarrow> world \<Rightarrow> unit result"

definition check_call :: "shell \<Rightarrow> string \<Rightarrow> world \<Rightarrow> unit result" where
  "check_call sh cmd w = sh cmd (log_event (Shell cmd) w)"

definition squote :: char where "squote = CHR 0x27"
definition dquote :: char where "dquote = CHR 0x22"
definition bslash :: char where "bslash = CHR 0x5C"

text \<open>
  \<open>sh_sed\<close> is one such shell: a POSIX shell on a machine whose only program is
  \<open>sed\<close>. \<open>sh_lex\<close> splits a command line into words: blanks separate words, single quotes
  keep everything, double quotes keep everything but a backslash before \<open>"\<close> or a
  backslash, a backslash outside quotes keeps the next character, and adjacent pieces
  join into one word. Operators, expansions and globbing are outside this fragment
  (\<open>None\<close>).
\<close>

datatype mode = Plain | InSingle | InDouble

definition add_char :: "char \<Rightarrow> string option \<Rightarrow> string option" where
  "add_char c cur = (case cur of None \<Rightarrow> Some [c] | Some a \<Rightarrow> Some (a @ [c]))"

definition open_word :: "string option \<Rightarrow> string option" where
  "open_word cur = (case cur of None \<Rightarrow> Some [] | Some a \<Rightarrow> Some a)"

definition sh_special :: "char \<Rightarrow> bool" where
  "sh_special c = (c \<in> set ''|&;<>()$*?[#~'' \<or> c = CHR 0x60 \<or> c = CHR 0x0A)"

fun sh_lex :: "mode \<Rightarrow> string option \<Rightarrow> string \<Rightarrow> string list option" where
  "sh_lex Plain cur [] = Some (case cur of None \<Rightarrow> [] | Some a \<Rightarrow> [a])"
| "sh_lex InSingle cur [] = None"
| "sh_lex InDouble cur [] = None"
| "sh_lex Plain cur (c # cs) =
     (if c = CHR '' '' \<or> c = CHR 0x09 then
        (case cur of None \<Rightarrow> sh_lex Plain None cs
                   | Some a \<Rightarrow> map_option (\<lambda>ws. a # ws) (sh_lex Plain None cs))
      else if c = squote then sh_lex InSingle (open_word cur) cs
      else if c = dquote then sh_lex InDouble (open_word cur) cs
      else if c = bslash then
        (case cs of [] \<Rightarrow> None | d # ds \<Rightarrow> sh_lex Plain (add_char d cur) ds)
      else if sh_special c then None
      else sh_lex Plain (add_char c cur) cs)"
| "sh_lex InSingle cur (c # cs) =
     (if c = squote then sh_lex Plain cur cs else sh_lex InSingle (add_char c cur) cs)"
| "sh_lex InDouble cur (c # cs) =
     (if c = dquote then sh_lex Plain cur cs
      else if c = bslash then
        (case cs of
           [] \<Rightarrow> None
         | d # ds \<Rightarrow>
             (if d = dquote \<or> d = bslash then sh_lex InDouble (add_char d cur) ds
              else sh_lex InDouble (add_char c cur) cs))
      else if c = CHR ''$'' \<or> c = CHR 0x60 then None
      else sh_lex InDouble (add_char c cur) cs)"

text \<open>
  \<open>sed [-i] [-e script]... [file]...\<close>: without \<open>-e\<close> the first operand is the script.
  The script is one \<open>s\<close> command, \<open>s/pattern/replacement/flags\<close>. The pattern is read
  literally once its backslashes are removed (the program's pattern has no operator of
  regular expressions); in the replacement \<open>&\<close> is the matched text. After the third
  delimiter only flags may follow; the \<open>w\<close> flag and other options of \<open>sed\<close> are not
  modelled. A script that does not parse, or no input file, is an error.
\<close>

fun sed_args :: "string list \<Rightarrow> string list \<times> string list \<Rightarrow> (string list \<times> string list) option" where
  "sed_args [] acc = Some acc"
| "sed_args (a # as) (scripts, files) =
     (if a = ''-i'' then sed_args as (scripts, files)
      else if a = ''-e'' then
        (case as of [] \<Rightarrow> None | s # as' \<Rightarrow> sed_args as' (scripts @ [s], files))
      else if a \<noteq> [] \<and> hd a = CHR ''-'' then None
      else sed_args as (scripts, files @ [a]))"

fun take_until :: "char \<Rightarrow> string \<Rightarrow> (string \<times> string) option" where
  "take_until d [] = None"
| "take_until d (c # cs) =
     (if c = d then Some ([], cs)
      else if c = bslash then
        (case cs of
           [] \<Rightarrow> None
         | e # es \<Rightarrow> map_option (\<lambda>(a, r). (c # e # a, r)) (take_until d es))
      else map_option (\<lambda>(a, r). (c # a, r)) (take_until d cs))"

fun unescape :: "string \<Rightarrow> string" where
  "unescape [] = []"
| "unescape [c] = [c]"
| "unescape (c # d # cs) = (if c = bslash then d # unescape cs else c # unescape (d # cs))"

fun expand_replacement :: "string \<Rightarrow> string \<Rightarrow> string" where
  "expand_replacement m [] = []"
| "expand_replacement m [c] = (if c = CHR ''&'' then m else [c])"
| "expand_replacement m (c # d # cs) =
     (if c = bslash then d # expand_replacement m cs
      else if c = CHR ''&'' then m @ expand_replacement m (d # cs)
      else c # expand_replacement m (d # cs))"

definition sed_flags_ok :: "string \<Rightarrow> bool" where
  "sed_flags_ok flags = list_all (\<lambda>c. c \<in> set ''gpiIMme0123456789'') flags"

text \<open>The first occurrence only, for an \<open>s\<close> command without the \<open>g\<close> flag.\<close>

fun replace_first :: "string \<Rightarrow> string \<Rightarrow> string \<Rightarrow> string" where
  "replace_first old new [] = []"
| "replace_first old new (c # cs) =
     (if startswith (c # cs) old then new @ drop (length old - 1) cs
      else c # replace_first old new cs)"

definition sed_s :: "string \<Rightarrow> (string \<Rightarrow> string) option" where
  "sed_s script =
     (case script of
        c # d # rest \<Rightarrow>
          (if c = CHR ''s'' then
             (case take_until d rest of
                None \<Rightarrow> None
              | Some (pat, rest1) \<Rightarrow>
                  (case take_until d rest1 of
                     None \<Rightarrow> None
                   | Some (rep, flags) \<Rightarrow>
                       (let old = unescape pat; new = expand_replacement old rep
                        in if old = [] \<or> \<not> sed_flags_ok flags then None
                           else if CHR ''g'' \<in> set flags
                           then Some (\<lambda>line. replace_aux old new line)
                           else Some (\<lambda>line. replace_first old new line))))
           else None)
      | _ \<Rightarrow> None)"

fun sed_files :: "(string \<Rightarrow> string) \<Rightarrow> string list \<Rightarrow> world \<Rightarrow> unit result" where
  "sed_files f [] w = Done () w"
| "sed_files f (p # ps) w =
     (case map_of (localfs w) p of
        Some (File (Text ls)) \<Rightarrow>
          sed_files f ps (w\<lparr>localfs := fs_put p (File (Text (map f ls))) (localfs w)\<rparr>)
      | _ \<Rightarrow> Raised CalledProcessError w)"

definition sed_main :: "string list \<Rightarrow> world \<Rightarrow> unit result" where
  "sed_main args w =
     (case sed_args args ([], []) of
        None \<Rightarrow> Raised CalledProcessError w
      | Some (scripts, files) \<Rightarrow>
          (case (if scripts = [] then (take 1 files, drop 1 files) else (scripts, files)) of
             ([script], inputs) \<Rightarrow>
               (case sed_s script of
                  None \<Rightarrow> Raised CalledProcessError w
                | Some f \<Rightarrow>
                    (if inputs = [] then Raised CalledProcessError w
                     else sed_files f inputs w))
           | _ \<Rightarrow> Raised CalledProcessError w))"

definition sh_sed :: "shell" where
  "sh_sed cmd w =
     (case sh_lex Plain None cmd of
        Some (prog # args) \<Rightarrow>
          (if prog = ''sed'' then sed_main args w else Raised CalledProcessError w)
      | _ \<Rightarrow> Raised CalledProcessError w)"

section \<open>The pipeline of \<open>csv_transform.py\<close>\<close>

subsection \<open>\<open>generate_folder_hierarchy\<close>\<close>

text \<open>\<open>if not os.path.exists(p): os.makedirs(p)\<close>.\<close>

definition ensure_folder :: "os_calls \<Rightarrow> path \<Rightarrow> world \<Rightarrow> unit result" where
  "ensure_folder os p w =
     (if \<not> os_path_exists os (localfs w) p then makedirs_call os p w else Done () w)"

definition generate_folder_hierarchy ::
    "os_calls \<Rightarrow> path \<Rightarrow> folder \<Rightarrow> folder \<Rightarrow> folder \<Rightarrow> folder \<Rightarrow> world \<Rightarrow> unit result" where
  "generate_folder_hierarchy os target_root_path target_source_folder target_unpack_folder
       target_load_folder target_batch_folder w =
     run_steps
       [ensure_folder os target_root_path,
        ensure_folder os (target_root_path @ ''/'' @ target_source_folder),
        ensure_folder os (target_root_path @ ''/'' @ target_unpack_folder),
        ensure_folder os (target_root_path @ ''/'' @ target_load_folder),
        ensure_folder os (target_root_path @ ''/'' @ target_batch_folder)] w"

subsection \<open>\<open>copy_source_files_gcs_to_gcs\<close>\<close>

definition copy_source_files_gcs_to_gcs ::
    "shell \<Rightarrow> bucket \<Rightarrow> bucket \<Rightarrow> folder \<Rightarrow> string \<Rightarrow> bool
      \<Rightarrow> world \<Rightarrow> unit result" where
  "copy_source_files_gcs_to_gcs sh source_bucket destination_bucket destination_folder
       file_type silent w =
     (let cmd = ''gsutil -m cp -n gs://'' @ source_bucket @ '' gs://'' @ destination_bucket
                  @ ''/'' @ destination_folder;
          cmd' = (if silent then cmd @ '' 2> /dev/null'' else cmd)
      in run_steps [check_call sh ''which gsutil'', check_call sh cmd'] w)"

subsection \<open>\<open>generate_batch_metadata_files\<close>\<close>

definition save_to_new_file :: "row list \<Rightarrow> string \<Rightarrow> world \<Rightarrow> unit result" where
  "save_to_new_file df file_path w = write_file file_path (Frame df) w"

definition type_matches :: "string \<Rightarrow> string \<Rightarrow> bool" where
  "type_matches name file_type = (py_find name file_type > 0 \<or> file_type = [])"

fun count_loop :: "string \<Rightarrow> string \<Rightarrow> string list \<Rightarrow> int \<Rightarrow> int option" where
  "count_loop bucket_name file_type [] cnt_files = Some cnt_files"
| "count_loop bucket_name file_type (blob # blobs) cnt_files =
     (case blob_filename bucket_name blob of
        None \<Rightarrow> None
      | Some filename \<Rightarrow>
          count_loop bucket_name file_type blobs
            (if type_matches (basename filename) file_type then cnt_files + 1 else cnt_files))"

definition count_files_in_gcs_bucket :: "string \<Rightarrow> path \<Rightarrow> string \<Rightarrow> world \<Rightarrow> int result" where
  "count_files_in_gcs_bucket project_id source_gcs_folder_path file_type w =
     (case bucket_of source_gcs_folder_path of
        None \<Rightarrow> Raised IndexError w
      | Some bucket_name \<Rightarrow>
          (let w1 = log_event (GcsList bucket_name []) w
           in case count_loop bucket_name file_type (list_blobs bucket_name [] w1) 0 of
                None \<Rightarrow> Raised IndexError w1
              | Some cnt_files \<Rightarrow> Done cnt_files w1))"

record gen_state =
  file_counter :: int
  batch_number :: int
  df_filelist :: "row list"

definition batch_metadata_path :: "string \<Rightarrow> string \<Rightarrow> int \<Rightarrow> string" where
  "batch_metadata_path target_root_path target_batch_folder n =
     target_root_path @ ''/'' @ target_batch_folder @ ''/batch_metadata-''
       @ zfill (str_int n) 6 @ ''.txt''"

text \<open>The body of the loop over the listed blobs (source lines 251 to 278).\<close>

definition generate_body ::
    "bucket \<Rightarrow> path \<Rightarrow> string \<Rightarrow> bucket \<Rightarrow> path \<Rightarrow> folder \<Rightarrow> string \<Rightarrow> int
      \<Rightarrow> string \<Rightarrow> gen_state \<Rightarrow> world \<Rightarrow> gen_state result" where
  "generate_body bucket_name source_gcs_folder_path source_file_batch_length target_gcs_bucket
       target_root_path target_batch_folder file_type total_number_files_in_bucket blob st w =
     (case blob_filename bucket_name blob of
        None \<Rightarrow> Raised IndexError w
      | Some filename \<Rightarrow>
          (let batch_metadata_file_path =
                 batch_metadata_path target_root_path target_batch_folder (batch_number st)
           in if type_matches filename file_type then
                (let filenm = basename filename;
                     path = source_gcs_folder_path @ ''/'' @ filenm;
                     guid = py_replace filenm file_type []
                 in case py_int source_file_batch_length of
                      None \<Rightarrow> Raised ValueError w
                    | Some n \<Rightarrow>
                        (if n = 0 then Raised ZeroDivisionError w
                         else if file_counter st mod n = 0
                                 \<or> file_counter st = total_number_files_in_bucket then
                           (case (if batch_number st > 0 then
                                    run_steps
                                      [save_to_new_file (df_filelist st) batch_metadata_file_path,
                                       upload_file_to_gcs batch_metadata_file_path target_gcs_bucket
                                         (target_root_path @ ''/'' @ target_batch_folder @ ''/''
                                            @ basename batch_metadata_file_path)] w
                                  else Done () w) of
                              Raised e w1 \<Rightarrow> Raised e w1
                            | Done u w1 \<Rightarrow>
                                Done \<lparr>file_counter = file_counter st + 1,
                                      batch_number = batch_number st + 1,
                                      df_filelist = [(path, guid, batch_number st + 1)]\<rparr> w1)
                         else
                           Done \<lparr>file_counter = file_counter st + 1,
                                 batch_number = batch_number st,
                                 df_filelist = df_filelist st @ [(path, guid, batch_number st)]\<rparr> w))
              else Done st w))"

definition generate_loop ::
    "bucket \<Rightarrow> path \<Rightarrow> string \<Rightarrow> bucket \<Rightarrow> path \<Rightarrow> folder \<Rightarrow> string \<Rightarrow> int
      \<Rightarrow> string list \<Rightarrow> gen_state \<Rightarrow> world \<Rightarrow> gen_state result" where
  "generate_loop bucket_name source_gcs_folder_path source_file_batch_length target_gcs_bucket
       target_root_path target_batch_folder file_type total_number_files_in_bucket =
     for_loop (generate_body bucket_name source_gcs_folder_path source_file_batch_length
       target_gcs_bucket target_root_path target_batch_folder file_type
       total_number_files_in_bucket)"

definition generate_batch_metadata_files ::
    "string \<Rightarrow> path \<Rightarrow> string \<Rightarrow> bucket \<Rightarrow> path \<Rightarrow> folder \<Rightarrow> string
      \<Rightarrow> world \<Rightarrow> unit result" where
  "generate_batch_metadata_files project_id source_gcs_folder_path source_file_batch_length
       target_gcs_bucket target_root_path target_batch_folder file_type w =
     (case bucket_of source_gcs_folder_path of
        None \<Rightarrow> Raised IndexError w
      | Some bucket_name \<Rightarrow>
          (case count_files_in_gcs_bucket project_id source_gcs_folder_path ''.tar.gz'' w of
             Raised e w1 \<Rightarrow> Raised e w1
           | Done total_number_files_in_bucket w1 \<Rightarrow>
               (let prefix_folder =
                      py_replace (py_replace source_gcs_folder_path ''gs://'' [])
                        (bucket_name @ ''/'') [];
                    w2 = log_event (GcsList bucket_name prefix_folder) w1
                in case generate_loop bucket_name source_gcs_folder_path
                          source_file_batch_length target_gcs_bucket target_root_path
                          target_batch_folder file_type total_number_files_in_bucket
                          (list_blobs bucket_name prefix_folder w2)
                          \<lparr>file_counter = 0, batch_number = 0, df_filelist = []\<rparr> w2 of
                     Raised e w3 \<Rightarrow> Raised e w3
                   | Done st w3 \<Rightarrow> Done () w3)))"

subsection \<open>\<open>add_id_column\<close>\<close>

text \<open>The command line that the f-string of source line 316 builds: in it \<open>\'\<close> is a
  single quote, \<open>{{\<close> a brace and \<open>\\"\<close> a backslash and a double quote. Nothing stands
  between the closing single quote and the file name.\<close>

definition add_id_cmd :: "string \<Rightarrow> string \<Rightarrow> string" where
  "add_id_cmd guid destination_json_file =
     ''sed -i -e '' @ [squote] @ ''s/{'' @ [bslash, dquote] @ ''frame'' @ [bslash, dquote]
       @ ''/{'' @ [dquote] @ ''id'' @ [dquote] @ '': '' @ [bslash, dquote] @ guid
       @ [bslash, dquote] @ '', '' @ [bslash, dquote] @ ''frame'' @ [bslash, dquote]
       @ ''/g'' @ [squote] @ destination_json_file"

definition add_id_column ::
    "shell \<Rightarrow> path \<Rightarrow> path \<Rightarrow> string \<Rightarrow> world \<Rightarrow> unit result" where
  "add_id_column sh source_json_file destination_json_file guid w =
     run_steps
       [shutil_copyfile source_json_file destination_json_file,
        check_call sh (add_id_cmd guid destination_json_file)] w"

subsection \<open>\<open>process_batch\<close>\<close>

text \<open>The body of the loop over \<open>df_filelist["pathname"]\<close> (source lines 172 to 199); the
  last statement of the body is \<open>os.unlink(batch_filename)\<close>.\<close>

definition process_batch_body ::
    "shell \<Rightarrow> string \<Rightarrow> bucket \<Rightarrow> path \<Rightarrow> path \<Rightarrow> folder
      \<Rightarrow> folder \<Rightarrow> folder \<Rightarrow> row list \<Rightarrow> path \<Rightarrow> path \<Rightarrow> unit \<Rightarrow> world \<Rightarrow> unit result" where
  "process_batch_body sh project_id target_gcs_bucket target_gcs_path target_root_path
       target_source_folder target_unpack_folder target_load_folder filelist batch_filename
       gcs_source_file u w =
     (let filename = basename gcs_source_file
      in case find (\<lambda>r. fst r = gcs_source_file) filelist of
           None \<Rightarrow> Raised IndexError w
         | Some r \<Rightarrow>
             (let guid = py_strip (fst (snd r));
                  source_json_file =
                    target_root_path @ ''/'' @ target_unpack_folder @ ''/'' @ guid @ ''/out.log'';
                  destination_json_file =
                    target_root_path @ ''/'' @ target_load_folder @ ''/out'' @ guid @ ''.log'';
                  source_tar_file = target_root_path @ ''/'' @ target_source_folder @ ''/'' @ filename
              in run_steps
                   [download_file_gcs project_id gcs_source_file
                      (target_root_path @ ''/'' @ target_source_folder),
                    tar_extractall source_tar_file (target_root_path @ ''/'' @ target_unpack_folder),
                    add_id_column sh source_json_file destination_json_file guid,
                    upload_file_to_gcs destination_json_file target_gcs_bucket
                      (target_gcs_path @ ''/'' @ target_load_folder @ ''/out'' @ guid @ ''.log''),
                    os_unlink source_tar_file,
                    os_unlink destination_json_file,
                    shutil_rmtree (target_root_path @ ''/'' @ target_unpack_folder @ ''/'' @ guid),
                    os_unlink batch_filename] w))"

definition process_batch ::
    "shell \<Rightarrow> string \<Rightarrow> path \<Rightarrow> bucket \<Rightarrow> path \<Rightarrow> path
      \<Rightarrow> folder \<Rightarrow> folder \<Rightarrow> folder \<Rightarrow> folder \<Rightarrow> world \<Rightarrow> unit result" where
  "process_batch sh project_id batch_filename target_gcs_bucket target_gcs_path target_root_path
       target_source_folder target_unpack_folder target_load_folder target_batch_folder w =
     (case download_file_gcs project_id (''gs://'' @ target_gcs_bucket @ ''/'' @ batch_filename)
             (target_root_path @ ''/'' @ target_batch_folder) w of
        Raised e w1 \<Rightarrow> Raised e w1
      | Done u w1 \<Rightarrow>
          (let batch_filename' =
                 target_root_path @ ''/'' @ target_batch_folder @ ''/'' @ basename batch_filename
           in case read_csv batch_filename' w1 of
                Raised e w2 \<Rightarrow> Raised e w2
              | Done filelist w2 \<Rightarrow>
                  for_loop
                    (process_batch_body sh project_id target_gcs_bucket target_gcs_path
                       target_root_path target_source_folder target_unpack_folder
                       target_load_folder filelist batch_filename')
                    (map fst filelist) () w2))"

subsection \<open>\<open>process_batch_metadata_files\<close>\<close>

text \<open>The loop of source lines 128 to 147, with the call of \<open>process_batch\<close> as the
  parameter \<open>pb\<close>; the loop variable is \<open>file_group_ordinal\<close>.\<close>

definition batch_group_body ::
    "(path \<Rightarrow> world \<Rightarrow> unit result) \<Rightarrow> bucket \<Rightarrow> int \<Rightarrow> int \<Rightarrow> string \<Rightarrow> int \<Rightarrow> world
      \<Rightarrow> int result" where
  "batch_group_body pb bucket_name batch_group_size batch_ordinal blob file_group_ordinal w =
     (case blob_filename bucket_name blob of
        None \<Rightarrow> Raised IndexError w
      | Some batch_filename \<Rightarrow>
          (case (if file_group_ordinal = batch_ordinal then pb batch_filename w else Done () w) of
             Raised e w1 \<Rightarrow> Raised e w1
           | Done u w1 \<Rightarrow>
               Done (if file_group_ordinal + 1 > batch_group_size then 1
                     else file_group_ordinal + 1) w1))"

definition batch_group_loop ::
    "(path \<Rightarrow> world \<Rightarrow> unit result) \<Rightarrow> bucket \<Rightarrow> path \<Rightarrow> int \<Rightarrow> int \<Rightarrow> world \<Rightarrow> unit result" where
  "batch_group_loop pb target_gcs_bucket batch_gcs_path batch_group_size batch_ordinal w =
     (let w1 = log_event (GcsList target_gcs_bucket batch_gcs_path) w
      in case for_loop (batch_group_body pb target_gcs_bucket batch_group_size batch_ordinal)
                (list_blobs target_gcs_bucket batch_gcs_path w1) 1 w1 of
           Raised e w2 \<Rightarrow> Raised e w2
         | Done n w2 \<Rightarrow> Done () w2)"

definition process_batch_metadata_files ::
    "shell \<Rightarrow> string \<Rightarrow> bucket \<Rightarrow> path \<Rightarrow> path \<Rightarrow> folder
      \<Rightarrow> folder \<Rightarrow> folder \<Rightarrow> folder \<Rightarrow> path \<Rightarrow> int \<Rightarrow> int \<Rightarrow> world \<Rightarrow> unit result" where
  "process_batch_metadata_files sh project_id target_gcs_bucket target_gcs_path target_root_path
       target_source_folder target_unpack_folder target_load_folder target_batch_folder
       batch_gcs_path batch_group_size batch_ordinal w =
     batch_group_loop
       (\<lambda>batch_filename. process_batch sh project_id batch_filename target_gcs_bucket
          target_gcs_path target_root_path target_source_folder target_unpack_folder
          target_load_folder target_batch_folder)
       target_gcs_bucket batch_gcs_path batch_group_size batch_ordinal w"

text \<open>The manifests the loop hands to \<open>process_batch\<close> when every call returns: the same
  loop over the listed file names, collecting the argument of the call.\<close>

fun assigned_from :: "int \<Rightarrow> int \<Rightarrow> int \<Rightarrow> string list \<Rightarrow> string list" where
  "assigned_from batch_group_size batch_ordinal file_group_ordinal [] = []"
| "assigned_from batch_group_size batch_ordinal file_group_ordinal (batch_filename # rest) =
     (if file_group_ordinal = batch_ordinal then [batch_filename] else [])
     @ assigned_from batch_group_size batch_ordinal
         (if file_group_ordinal + 1 > batch_group_size then 1 else file_group_ordinal + 1) rest"

definition assigned_manifests :: "int \<Rightarrow> int \<Rightarrow> string list \<Rightarrow> string list" where
  "assigned_manifests batch_group_size batch_ordinal batch_filenames =
     assigned_from batch_group_size batch_ordinal 1 batch_filenames"

subsection \<open>\<open>main\<close>\<close>

record config =
  source_url_gcs :: string
  source_file_batch_length :: string
  target_gcs_bucket :: string
  target_gcs_path :: string
  target_root_path :: string
  target_source_folder :: string
  target_unpack_folder :: string
  target_load_folder :: string
  target_batch_folder :: string
  project_id :: string
  pipeline_name :: string
  batch_group_size :: string
  batch_ordinal :: string

text \<open>The two \<open>remove_gcs_path\<close> calls that precede manifest generation (source lines 59
  to 66).\<close>

definition pre_clean :: "config \<Rightarrow> world \<Rightarrow> unit result" where
  "pre_clean c w =
     run_steps
       [remove_gcs_path (target_gcs_bucket c) (target_gcs_path c @ ''/'' @ target_load_folder c),
        remove_gcs_path (target_gcs_bucket c) (target_gcs_path c @ ''/'' @ target_batch_folder c)]
       w"

definition main :: "shell \<Rightarrow> os_calls \<Rightarrow> config \<Rightarrow> world \<Rightarrow> unit result" where
  "main sh os c w =
     (case generate_folder_hierarchy os (target_root_path c) (target_source_folder c)
             (target_unpack_folder c) (target_load_folder c) (target_batch_folder c) w of
        Raised e w1 \<Rightarrow> Raised e w1
      | Done u w1 \<Rightarrow>
          (if pipeline_name c = ''transfer_source'' then
             copy_source_files_gcs_to_gcs sh ''gcs-public-data-trafficvision''
               (target_gcs_bucket c) (''data/trafficvision/'' @ target_source_folder c)
               ''.tar.gz'' True w1
           else if pipeline_name c = ''generate_batch_metadata_files'' then
             run_steps
               [pre_clean c,
                generate_batch_metadata_files (project_id c) (source_url_gcs c)
                  (source_file_batch_length c) (target_gcs_bucket c) (target_root_path c)
                  (target_batch_folder c) ''.tar.gz''] w1
           else if pipeline_name c = ''run_batch_data'' then
             (case py_int (batch_group_size c) of
                None \<Rightarrow> Raised ValueError w1
              | Some g \<Rightarrow>
                  (case py_int (batch_ordinal c) of
                     None \<Rightarrow> Raised ValueError w1
                   | Some k \<Rightarrow>
                       process_batch_metadata_files sh (project_id c) (target_gcs_bucket c)
                         (target_gcs_path c) (target_root_path c) (target_source_folder c)
                         (target_unpack_folder c) (target_load_folder c)
                         (target_batch_folder c)
                         (target_gcs_path c @ ''/'' @ target_batch_folder c) g k w1))
           else Done () w1))"

subsection \<open>The retry decorator\<close>

text \<open>
  Modelled from the spec: the decorator \<open>@retry(stop_max_attempt_number=7,
  stop_max_delay=300000)\<close> of source line 26 comes from the package \<open>retrying\<close>, whose code
  is not under src/. Section 4.5 of the spec: the wrapper retries on any raised error,
  up to 7 attempts, with a budget of 300 seconds across all attempts; whichever limit is
  hit first stops retrying and the last error propagates. The clock is the parameter
  \<open>elapsed\<close>: \<open>elapsed n\<close> is the time in milliseconds since the first attempt began,
  read after attempt \<open>n\<close> has raised. The two limits are the decorator's arguments; the
  wrapper stops once the elapsed time has reached the budget.
\<close>

function retry_from ::
    "nat \<Rightarrow> int \<Rightarrow> (nat \<Rightarrow> int) \<Rightarrow> (world \<Rightarrow> unit result) \<Rightarrow> nat \<Rightarrow> world \<Rightarrow> nat \<times> unit result" where
  "retry_from stop_max_attempt_number stop_max_delay elapsed f attempt_number w =
     (case f w of
        Done u w1 \<Rightarrow> (attempt_number, Done u w1)
      | Raised e w1 \<Rightarrow>
          (if stop_max_attempt_number \<le> attempt_number \<or> stop_max_delay \<le> elapsed attempt_number
           then (attempt_number, Raised e w1)
           else retry_from stop_max_attempt_number stop_max_delay elapsed f
                  (Suc attempt_number) w1))"
  by pat_completeness auto
termination
  by (relation "measure (\<lambda>(m, d, el, f, n, w). m - n)") auto

definition retry :: "(nat \<Rightarrow> int) \<Rightarrow> (world \<Rightarrow> unit result) \<Rightarrow> world \<Rightarrow> nat \<times> unit result" where
  "retry elapsed f w = retry_from 7 300000 elapsed f 1 w"

text \<open>The decorated entry point: the number of attempts made, and what the caller gets.\<close>

definition main_retried ::
    "(nat \<Rightarrow> int) \<Rightarrow> shell \<Rightarrow> os_calls \<Rightarrow> config \<Rightarrow> world \<Rightarrow> nat \<times> unit result" where
  "main_retried elapsed sh os c w = retry elapsed (main sh os c) w"

section \<open>Observations\<close>

definition world_of :: "'a result \<Rightarrow> world" where
  "world_of r = (case r of Done x w \<Rightarrow> w | Raised e w \<Rightarrow> w)"

definition raised :: "'a result \<Rightarrow> error option" where
  "raised r = (case r of Done x w \<Rightarrow> None | Raised e w \<Rightarrow> Some e)"

text \<open>The paths of the local files written, in the order of the writes.\<close>

fun written_files :: "event list \<Rightarrow> string list" where
  "written_files [] = []"
| "written_files (WriteFile p # es) = p # written_files es"
| "written_files (e # es) = written_files es"

text \<open>The local files written up to the end of a run, normal or not.\<close>

definition written :: "'a result \<Rightarrow> string list" where
  "written r = written_files (trace (world_of r))"

text \<open>The objects of a bucket that hold a saved frame, with their rows.\<close>

fun manifests_in :: "string \<Rightarrow> ((string \<times> string) \<times> content) list \<Rightarrow> (string \<times> row list) list" where
  "manifests_in bucket [] = []"
| "manifests_in bucket (((b, name), Frame rows) # rest) =
     (if b = bucket then (name, rows) # manifests_in bucket rest else manifests_in bucket rest)"
| "manifests_in bucket (e # rest) = manifests_in bucket rest"

text \<open>The deleting calls of a trace.\<close>

fun deletions :: "event list \<Rightarrow> event list" where
  "deletions [] = []"
| "deletions (OsUnlink p # es) = OsUnlink p # deletions es"
| "deletions (OsRmtree p # es) = OsRmtree p # deletions es"
| "deletions (e # es) = deletions es"

text \<open>The file names the program reads off a listing.\<close>

definition filename_of :: "string \<Rightarrow> string \<Rightarrow> string" where
  "filename_of bucket name = (case blob_filename bucket name of Some f \<Rightarrow> f | None \<Rightarrow> [])"

definition listed_filenames :: "string \<Rightarrow> string \<Rightarrow> world \<Rightarrow> string list" where
  "listed_filenames bucket prefix w = map (filename_of bucket) (list_blobs bucket prefix w)"

text \<open>The spec's formula for the batch group assignment, read with the manifests counted
  from 0 and from 1: a manifest is processed when its index modulo the group size is the
  batch ordinal.\<close>

definition spec_assigned :: "nat \<Rightarrow> int \<Rightarrow> int \<Rightarrow> string list \<Rightarrow> string list" where
  "spec_assigned first group_size ordinal fs =
     map (\<lambda>i. fs ! i)
       (filter (\<lambda>i. int (i + first) mod group_size = ordinal) [0..<length fs])"

text \<open>The parent directory whose objects \<open>remove_gcs_path\<close> deletes.\<close>

definition drop_path_of :: "string \<Rightarrow> string" where
  "drop_path_of gcs_path = fst (os_path_split gcs_path)"

text \<open>An object of bucket \<open>b\<close> whose name starts with \<open>prefix\<close>.\<close>

definition under_prefix :: "bucket \<Rightarrow> string \<Rightarrow> (string \<times> string) \<times> content \<Rightarrow> bool" where
  "under_prefix b prefix e = (fst (fst e) = b \<and> startswith (snd (fst e)) prefix)"

text \<open>The five paths that \<open>generate_folder_hierarchy\<close> tests, in its order.\<close>

definition staging_paths :: "config \<Rightarrow> path list" where
  "staging_paths c =
     [target_root_path c,
      target_root_path c @ ''/'' @ target_source_folder c,
      target_root_path c @ ''/'' @ target_unpack_folder c,
      target_root_path c @ ''/'' @ target_load_folder c,
      target_root_path c @ ''/'' @ target_batch_folder c]"


text \<open>From the files \<open>fs\<close> to the files \<open>fs'\<close> nothing was lost and only directories came:
  what existed exists, a directory is still one, and what exists now and did not before
  is a directory.\<close>

definition kept :: "os_calls \<Rightarrow> files \<Rightarrow> files \<Rightarrow> bool" where
  "kept os fs fs' \<longleftrightarrow>
     (\<forall>q. os_path_exists os fs q \<longrightarrow> os_path_exists os fs' q)
     \<and> (\<forall>q. os_path_isdir os fs q \<longrightarrow> os_path_isdir os fs' q)
     \<and> (\<forall>q. os_path_exists os fs' q \<and> \<not> os_path_exists os fs q \<longrightarrow> os_path_isdir os fs' q)"

text \<open>What the proofs about the folders need of the operating system: an \<open>os.makedirs\<close>
  that returns has made a directory of its path, \<open>os.makedirs\<close> loses nothing and adds
  only directories whether it returns or raises, and a directory exists.\<close>

definition os_laws :: "os_calls \<Rightarrow> bool" where
  "os_laws os \<longleftrightarrow>
     (\<forall>p fs fs' e. os_makedirs os p fs = (fs', e) \<longrightarrow>
         (e = None \<longrightarrow> os_path_isdir os fs' p) \<and> kept os fs fs')
     \<and> (\<forall>fs q. os_path_isdir os fs q \<longrightarrow> os_path_exists os fs q)"

text \<open>Components as \<open>path_parts\<close> gives them: not empty, not \<open>.\<close>, and without a slash.\<close>

definition proper :: "string list \<Rightarrow> bool" where
  "proper cs = list_all (\<lambda>c. c \<noteq> [] \<and> c \<noteq> ''.'' \<and> CHR ''/'' \<notin> set c) cs"

text \<open>From \<open>fs\<close> to \<open>fs'\<close> the regular files are the same and no directory is gone.\<close>

definition grown :: "files \<Rightarrow> files \<Rightarrow> bool" where
  "grown fs fs' \<longleftrightarrow> (\<forall>k. file_at fs' k = file_at fs k) \<and> (\<forall>k. dir_at fs k \<longrightarrow> dir_at fs' k)"

text \<open>Nothing stands in the way of a folder at \<open>p\<close>: the path is not empty and has no
  NUL character, and no regular file is at the place it names or above it.\<close>

definition clear_path :: "files \<Rightarrow> path \<Rightarrow> bool" where
  "clear_path fs p =
     (p \<noteq> [] \<and> CHR 0x00 \<notin> set p \<and> \<not> file_above fs (location_of p)
      \<and> \<not> file_at fs (location_of p))"

text \<open>A character that the shell takes as part of a word, outside quotes.\<close>

definition plain_char :: "char \<Rightarrow> bool" where
  "plain_char c =
     (\<not> (c = CHR '' '' \<or> c = CHR 0x09 \<or> c = squote \<or> c = dquote \<or> c = bslash \<or> sh_special c))"

text \<open>The world in which attempt \<open>n\<close> starts, when every earlier attempt left its effects.\<close>

definition world_before :: "(world \<Rightarrow> unit result) \<Rightarrow> nat \<Rightarrow> world \<Rightarrow> world" where
  "world_before f n w = ((\<lambda>v. world_of (f v)) ^^ (n - 1)) w"

section \<open>Example inputs\<close>

definition frame_line :: "string \<Rightarrow> string" where
  "frame_line n = ''{'' @ [dquote] @ ''frame'' @ [dquote] @ '': '' @ n @ ''}''"

text \<open>The staging folders under the root \<open>/r\<close>, as \<open>generate_folder_hierarchy\<close> leaves
  them.\<close>

definition staging_folders :: "(string \<times> node) list" where
  "staging_folders =
     [(''/r'', Dir), (''/r/src'', Dir), (''/r/unpack'', Dir), (''/r/load'', Dir),
      (''/r/batch'', Dir)]"

text \<open>Two archives in the source bucket, and two manifests under the batch prefix of the
  destination bucket.\<close>

definition batch_world :: world where
  "batch_world =
     \<lparr>localfs = staging_folders,
      gcs = [((''srcb'', ''data/a.tar.gz''), Tar [(''a/out.log'', [frame_line ''1''])]),
             ((''srcb'', ''data/b.tar.gz''), Tar [(''b/out.log'', [frame_line ''2''])]),
             ((''dst'', ''data/tv/batch/batch_metadata-000001.txt''),
                Frame [(''gs://srcb/data/a.tar.gz'', ''a'', 1),
                       (''gs://srcb/data/b.tar.gz'', ''b'', 1)]),
             ((''dst'', ''data/tv/batch/batch_metadata-000002.txt''),
                Frame [(''gs://srcb/data/c.tar.gz'', ''c'', 2)])],
      trace = []\<rparr>"

definition example_config :: config where
  "example_config =
     \<lparr>source_url_gcs = ''gs://srcb/data'', source_file_batch_length = ''2'',
      target_gcs_bucket = ''dst'', target_gcs_path = ''data/tv'', target_root_path = ''/r'',
      target_source_folder = ''src'', target_unpack_folder = ''unpack'',
      target_load_folder = ''load'', target_batch_folder = ''batch'', project_id = ''p'',
      pipeline_name = '''', batch_group_size = ''1'', batch_ordinal = ''1''\<rparr>"


text \<open>A destination bucket with a load output, a manifest, a copied source archive and an
  unrelated object, and one object of another bucket.\<close>

definition clean_world :: world where
  "clean_world =
     \<lparr>localfs = [],
      gcs = [((''dst'', ''data/tv/load/out1.log''), Text []),
             ((''dst'', ''data/tv/batch/batch_metadata-000001.txt''), Frame []),
             ((''dst'', ''data/tv/files/a.tar.gz''), Tar []),
             ((''dst'', ''other/keep.txt''), Text []),
             ((''srcb'', ''data/tv/x''), Text [])],
      trace = []\<rparr>"

text \<open>A source bucket with the five archives \<open>a.tar.gz\<close> to \<open>e.tar.gz\<close> under \<open>data/\<close>.\<close>

definition gen_world :: world where
  "gen_world =
     \<lparr>localfs = staging_folders,
      gcs = map (\<lambda>n. ((''srcb'', ''data/'' @ n @ ''.tar.gz''), Tar [])) [''a'', ''b'', ''c'', ''d'', ''e''],
      trace = []\<rparr>"

text \<open>An unpacked log with one record line and one other line.\<close>

definition add_id_world :: world where
  "add_id_world =
     \<lparr>localfs = staging_folders
        @ [(''/r/unpack/g1/out.log'', File (Text [frame_line ''1'', ''other'']))],
      gcs = [], trace = []\<rparr>"



text \<open>A current directory with a regular file \<open>f\<close>, a folder \<open>d\<close> with a folder \<open>e\<close> and a
  regular file \<open>g\<close> in it, and nothing else.\<close>

definition small_files :: files where
  "small_files = [(''d/e'', Dir), (''f'', File (Text [])), (''d/g'', File (Text []))]"

text \<open>A machine on which the staging root \<open>/r\<close> is a regular file.\<close>

definition file_root_world :: world where
  "file_root_world = \<lparr>localfs = [(''/r'', File (Text []))], gcs = [], trace = []\<rparr>"

text \<open>A shell on which every command exits with status 0 and changes nothing.\<close>

definition quiet_shell :: shell where
  "quiet_shell cmd w = Done () w"

text \<open>A call that raises whenever it is made (a listing of a bucket that is not there).\<close>

definition failing_call :: "world \<Rightarrow> unit result" where
  "failing_call w = Raised NotFound (log_event (GcsList ''dst'' []) w)"

section \<open>Reading a listing\<close>

lemma split_aux_not_Nil: "split_aux sep acc s \<noteq> []"
  by (induction s arbitrary: acc) auto

lemma split_aux_comma_two:
  "\<exists>a b r. split_aux '','' acc (xs @ CHR '','' # ys) = a # b # r"
proof (induction xs arbitrary: acc)
  case Nil
  obtain b r where "split_aux '','' [] ys = b # r"
    using split_aux_not_Nil [of "'',''" "[]" ys] by (cases "split_aux '','' [] ys") auto
  then show ?case by (simp add: startswith_def)
next
  case (Cons c cs)
  show ?case
  proof (cases "c = CHR '',''")
    case True
    obtain b r where "split_aux '','' [] (cs @ CHR '','' # ys) = b # r"
      using split_aux_not_Nil [of "'',''" "[]" "cs @ CHR '','' # ys"]
      by (cases "split_aux '','' [] (cs @ CHR '','' # ys)") auto
    with True show ?thesis by (simp add: startswith_def)
  next
    case False
    then show ?thesis using Cons.IH [of "c # acc"] by (simp add: startswith_def)
  qed
qed

text \<open>\<open>str(blob).split(",")[1]\<close> never raises: the text of a blob has two commas.\<close>

lemma blob_filename_total: "blob_filename bucket name = Some (filename_of bucket name)"
proof -
  have "str_blob bucket name = (''<Blob: '' @ bucket) @ CHR '','' # ('' '' @ name @ '', 1>'')"
    by (simp add: str_blob_def)
  then obtain a b r where "py_split (str_blob bucket name) '','' = a # b # r"
    unfolding py_split_def using split_aux_comma_two by metis
  then show ?thesis by (simp add: filename_of_def blob_filename_def)
qed

section \<open>The batch group assignment\<close>

text \<open>The loop of \<open>process_batch_metadata_files\<close> runs its action on the assigned
  manifests, one after the other, and on nothing else.\<close>

lemma batch_group_loop_steps:
  "(case for_loop (batch_group_body pb bucket G k) blobs fgo w of
      Raised e w2 \<Rightarrow> Raised e w2 | Done n w2 \<Rightarrow> Done () w2)
   = run_steps (map pb (assigned_from G k fgo (map (filename_of bucket) blobs))) w"
proof (induction blobs arbitrary: fgo w)
  case Nil
  then show ?case by simp
next
  case (Cons blob blobs)
  show ?case
  proof (cases "fgo = k")
    case True
    then show ?thesis
      using Cons.IH
      by (cases "pb (filename_of bucket blob) w")
         (simp_all add: batch_group_body_def blob_filename_total)
  next
    case False
    then show ?thesis
      using Cons.IH by (simp add: batch_group_body_def blob_filename_total)
  qed
qed

lemma batch_group_loop_runs:
  "batch_group_loop pb bucket path G k w =
     run_steps (map pb (assigned_manifests G k (listed_filenames bucket path w)))
       (log_event (GcsList bucket path) w)"
proof -
  have same: "list_blobs bucket path (log_event (GcsList bucket path) w) = list_blobs bucket path w"
    by (simp add: list_blobs_def log_event_def)
  show ?thesis
    unfolding batch_group_loop_def Let_def assigned_manifests_def listed_filenames_def same
    by (rule batch_group_loop_steps)
qed

text \<open>With the ordinal variable in \<open>1..G\<close>, the manifest at position \<open>i\<close> (from 0) of
  what is left gets the slot \<open>(fgo - 1 + i) mod G + 1\<close>.\<close>

lemma assigned_from_index:
  "1 \<le> G \<Longrightarrow> 1 \<le> fgo \<Longrightarrow> fgo \<le> G \<Longrightarrow>
   assigned_from G k fgo fs =
     map (\<lambda>i. fs ! i) (filter (\<lambda>i. (fgo - 1 + int i) mod G + 1 = k) [0..<length fs])"
proof (induction fs arbitrary: fgo)
  case Nil
  then show ?case by simp
next
  case (Cons f fs)
  define nxt where "nxt = (if fgo + 1 > G then 1 else fgo + 1)"
  have nx: "1 \<le> nxt" "nxt \<le> G" using Cons.prems by (auto simp: nxt_def)
  have shift: "(nxt - 1 + int i) mod G = (fgo - 1 + int (Suc i)) mod G" for i
  proof (cases "fgo + 1 > G")
    case True
    then have "fgo = G" using Cons.prems by simp
    then show ?thesis by (simp add: nxt_def algebra_simps)
  next
    case False
    then show ?thesis by (simp add: nxt_def algebra_simps)
  qed
  have here: "((fgo - 1 + int 0) mod G + 1 = k) = (fgo = k)"
    using Cons.prems by simp
  have upt: "[0..<length (f # fs)] = 0 # map Suc [0..<length fs]"
    by (simp add: upt_conv_Cons map_Suc_upt del: upt_Suc)
  have tl: "map (\<lambda>i. (f # fs) ! i)
          (filter (\<lambda>i. (fgo - 1 + int i) mod G + 1 = k) (map Suc [0..<length fs]))
        = map (\<lambda>i. fs ! i) (filter (\<lambda>i. (nxt - 1 + int i) mod G + 1 = k) [0..<length fs])"
    by (simp only: filter_map map_map comp_def shift nth_Cons_Suc)
  have "assigned_from G k fgo (f # fs) =
        (if fgo = k then [f] else []) @ assigned_from G k nxt fs"
    by (simp add: nxt_def)
  also have "assigned_from G k nxt fs =
        map (\<lambda>i. fs ! i) (filter (\<lambda>i. (nxt - 1 + int i) mod G + 1 = k) [0..<length fs])"
    using Cons.IH [OF Cons.prems(1) nx] .
  finally show ?case
    unfolding upt filter.simps here list.map tl [symmetric] by simp
qed

lemma assigned_from_outside:
  "1 \<le> G \<Longrightarrow> 1 \<le> fgo \<Longrightarrow> fgo \<le> G \<Longrightarrow> k < 1 \<or> G < k \<Longrightarrow> assigned_from G k fgo fs = []"
  by (induction fs arbitrary: fgo) auto

lemma assigned_from_mset:
  "1 \<le> G \<Longrightarrow> 1 \<le> fgo \<Longrightarrow> fgo \<le> G \<Longrightarrow>
   (\<Sum>k\<in>{1..G}. mset (assigned_from G k fgo fs)) = mset fs"
proof (induction fs arbitrary: fgo)
  case Nil
  then show ?case by simp
next
  case (Cons f fs)
  let ?next = "if fgo + 1 > G then 1 else fgo + 1"
  have nx: "1 \<le> ?next" "?next \<le> G" using Cons.prems by auto
  have "(\<Sum>k\<in>{1..G}. mset (assigned_from G k fgo (f # fs)))
        = (\<Sum>k\<in>{1..G}. (if fgo = k then {#f#} else {#}) + mset (assigned_from G k ?next fs))"
    by (rule sum.cong) auto
  also have "\<dots> = (\<Sum>k\<in>{1..G}. (if fgo = k then {#f#} else {#}))
                   + (\<Sum>k\<in>{1..G}. mset (assigned_from G k ?next fs))"
    by (simp add: sum.distrib)
  also have "(\<Sum>k\<in>{1..G}. (if fgo = k then {#f#} else {#})) = {#f#}"
    using Cons.prems by (simp add: sum.delta')
  also have "(\<Sum>k\<in>{1..G}. mset (assigned_from G k ?next fs)) = mset fs"
    using Cons.IH [OF Cons.prems(1) nx] .
  finally show ?case by simp
qed

lemma assigned_manifests_index:
  assumes "1 \<le> G"
  shows "assigned_manifests G k fs =
           map (\<lambda>i. fs ! i) (filter (\<lambda>i. int i mod G + 1 = k) [0..<length fs])"
  using assigned_from_index [OF assms, of 1 k fs] assms by (simp add: assigned_manifests_def)

lemma assigned_manifests_mem:
  assumes "1 \<le> G"
  shows "x \<in> set (assigned_manifests G k fs) \<longleftrightarrow> (\<exists>i<length fs. fs ! i = x \<and> int i mod G + 1 = k)"
  unfolding assigned_manifests_index [OF assms] by auto

lemma listed_batch_world:
  "listed_filenames ''dst'' ''data/tv/batch'' batch_world =
     [''data/tv/batch/batch_metadata-000001.txt'', ''data/tv/batch/batch_metadata-000002.txt'']"
  by (simp add: listed_filenames_def list_blobs_def batch_world_def startswith_def
      filename_of_def blob_filename_def str_blob_def py_split_def py_strip_def is_space_def)

text \<open>
  C2. For a batch group size \<open>G \<ge> 1\<close> the assignment is a partition. An invocation with
  ordinal \<open>k\<close> runs \<open>process_batch\<close> on \<open>assigned_manifests G k\<close> of the listed manifests,
  in order and up to the first call that raises, whatever \<open>process_batch\<close> is. Over the
  ordinals \<open>1..G\<close> the assigned lists add up to the manifest list (as multisets: every
  listed manifest goes to exactly one ordinal), their union is the set of manifests, and
  for a listing without repeated names the sets of two different ordinals are disjoint.
\<close>

theorem batch_group_assignment_partition:
  assumes "1 \<le> G"
  shows "(\<forall>pb. batch_group_loop pb bucket path G k w =
            run_steps (map pb (assigned_manifests G k (listed_filenames bucket path w)))
              (log_event (GcsList bucket path) w))
       \<and> (\<Sum>j\<in>{1..G}. mset (assigned_manifests G j fs)) = mset fs
       \<and> (\<Union>j\<in>{1..G}. set (assigned_manifests G j fs)) = set fs
       \<and> (distinct fs \<longrightarrow>
            (\<forall>j j'. j \<noteq> j' \<longrightarrow>
               set (assigned_manifests G j fs) \<inter> set (assigned_manifests G j' fs) = {}))"
proof (intro conjI allI impI)
  fix pb
  show "batch_group_loop pb bucket path G k w =
          run_steps (map pb (assigned_manifests G k (listed_filenames bucket path w)))
            (log_event (GcsList bucket path) w)"
    by (rule batch_group_loop_runs)
next
  show "(\<Sum>j\<in>{1..G}. mset (assigned_manifests G j fs)) = mset fs"
    unfolding assigned_manifests_def using assigned_from_mset [of G 1 fs] assms by simp
next
  show "(\<Union>j\<in>{1..G}. set (assigned_manifests G j fs)) = set fs"
  proof (intro equalityI subsetI)
    fix x
    assume "x \<in> (\<Union>j\<in>{1..G}. set (assigned_manifests G j fs))"
    then obtain j where "x \<in> set (assigned_manifests G j fs)" by blast
    then obtain i where "i < length fs" "fs ! i = x"
      unfolding assigned_manifests_mem [OF assms] by blast
    then show "x \<in> set fs" by (metis nth_mem)
  next
    fix x
    assume "x \<in> set fs"
    then obtain i where i: "i < length fs" "fs ! i = x" by (metis in_set_conv_nth)
    define j where "j = int i mod G + 1"
    have "0 \<le> int i mod G" "int i mod G < G" using assms by simp_all
    then have "j \<in> {1..G}" by (simp add: j_def)
    moreover have "x \<in> set (assigned_manifests G j fs)"
      unfolding assigned_manifests_mem [OF assms] using i j_def by blast
    ultimately show "x \<in> (\<Union>j\<in>{1..G}. set (assigned_manifests G j fs))" by blast
  qed
next
  fix j j' :: int
  assume d: "distinct fs" and ne: "j \<noteq> j'"
  show "set (assigned_manifests G j fs) \<inter> set (assigned_manifests G j' fs) = {}"
  proof (rule ccontr)
    assume "set (assigned_manifests G j fs) \<inter> set (assigned_manifests G j' fs) \<noteq> {}"
    then obtain x where "x \<in> set (assigned_manifests G j fs)" "x \<in> set (assigned_manifests G j' fs)"
      by auto
    then obtain i i' where i: "i < length fs" "fs ! i = x" "int i mod G + 1 = j"
      and i': "i' < length fs" "fs ! i' = x" "int i' mod G + 1 = j'"
      by (auto simp: assigned_manifests_mem [OF assms])
    from d i(1,2) i'(1,2) have "i = i'" by (metis nth_eq_iff_index_eq)
    with i(3) i'(3) ne show False by simp
  qed
qed

theorem batch_group_assignment_partition_witness:
  "(1::int) \<le> 2
   \<and> (\<Sum>j\<in>{1..2::int}. mset (assigned_manifests 2 j [''m0'', ''m1'', ''m2'']))
       = mset [''m0'', ''m1'', ''m2'']
   \<and> (\<Union>j\<in>{1..2::int}. set (assigned_manifests 2 j [''m0'', ''m1'', ''m2'']))
       = set [''m0'', ''m1'', ''m2'']
   \<and> distinct [''m0'', ''m1'', ''m2'']
   \<and> set (assigned_manifests 2 1 [''m0'', ''m1'', ''m2''])
       \<inter> set (assigned_manifests 2 2 [''m0'', ''m1'', ''m2'']) = {}
   \<and> assigned_manifests 2 1 [''m0'', ''m1'', ''m2''] = [''m0'', ''m2'']
   \<and> assigned_manifests 2 2 [''m0'', ''m1'', ''m2''] = [''m1'']"
proof -
  have g: "(1::int) \<le> 2" by simp
  have d: "distinct [''m0'', ''m1'', ''m2'']" by simp
  have a1: "assigned_manifests 2 1 [''m0'', ''m1'', ''m2''] = [''m0'', ''m2'']"
    by (simp add: assigned_manifests_def)
  have a2: "assigned_manifests 2 2 [''m0'', ''m1'', ''m2''] = [''m1'']"
    by (simp add: assigned_manifests_def)
  note t = batch_group_assignment_partition
    [OF g, of "''dst''" "''data/tv/batch''" 1 batch_world "[''m0'', ''m1'', ''m2'']"]
  from t have s: "(\<Sum>j\<in>{1..2::int}. mset (assigned_manifests 2 j [''m0'', ''m1'', ''m2'']))
       = mset [''m0'', ''m1'', ''m2'']" by blast
  from t have u: "(\<Union>j\<in>{1..2::int}. set (assigned_manifests 2 j [''m0'', ''m1'', ''m2'']))
       = set [''m0'', ''m1'', ''m2'']" by blast
  from t d have i: "set (assigned_manifests 2 1 [''m0'', ''m1'', ''m2''])
       \<inter> set (assigned_manifests 2 2 [''m0'', ''m1'', ''m2'']) = {}"
    by (metis num.distinct(1) numeral_eq_one_iff)
  from g s u d i a1 a2 show ?thesis by (intro conjI)
qed

text \<open>
  C3, as the spec states it, fails: with two manifests, group size 2 and ordinal 2 the
  program hands the second manifest to \<open>process_batch\<close>, while no index, counted from 0 or
  from 1, has \<open>index mod 2 = 2\<close>.
\<close>

theorem modular_formula_counterexample:
  "assigned_manifests 2 2 [''m0'', ''m1''] = [''m1'']
   \<and> spec_assigned 0 2 2 [''m0'', ''m1''] = []
   \<and> spec_assigned 1 2 2 [''m0'', ''m1''] = []"
  by (simp add: assigned_manifests_def spec_assigned_def)

text \<open>
  C3, amended. For a batch group size \<open>G \<ge> 1\<close>, \<open>process_batch_metadata_files\<close> runs
  \<open>process_batch\<close> on exactly the listed manifests whose position \<open>i\<close>, counted from 0,
  has \<open>(i mod G) + 1 = batch_ordinal\<close>, in listing order and stopping at the first call
  that raises: the cyclic slot of position \<open>i\<close> is \<open>(i mod G) + 1\<close>.
\<close>

theorem batch_group_slot_formula:
  assumes "1 \<le> G"
  shows "process_batch_metadata_files sh pid bucket gp root sf uf lf bf path G k w =
           run_steps
             (map (\<lambda>f. process_batch sh pid f bucket gp root sf uf lf bf)
                (map (\<lambda>i. listed_filenames bucket path w ! i)
                   (filter (\<lambda>i. int i mod G + 1 = k)
                      [0..<length (listed_filenames bucket path w)])))
             (log_event (GcsList bucket path) w)
       \<and> assigned_manifests G k fs =
           map (\<lambda>i. fs ! i) (filter (\<lambda>i. int i mod G + 1 = k) [0..<length fs])"
  unfolding process_batch_metadata_files_def batch_group_loop_runs
  by (simp add: assigned_manifests_index [OF assms])

theorem batch_group_slot_formula_witness:
  "(1::int) \<le> 2
   \<and> process_batch_metadata_files sh_sed ''p'' ''dst'' ''data/tv'' ''/r'' ''src'' ''unpack''
         ''load'' ''batch'' ''data/tv/batch'' 2 2 batch_world =
       run_steps
         [process_batch sh_sed ''p'' ''data/tv/batch/batch_metadata-000002.txt'' ''dst''
            ''data/tv'' ''/r'' ''src'' ''unpack'' ''load'' ''batch'']
         (log_event (GcsList ''dst'' ''data/tv/batch'') batch_world)
   \<and> assigned_manifests 2 2 [''m0'', ''m1'', ''m2''] = [''m1'']"
proof -
  have g: "(1::int) \<le> 2" by simp
  have sel: "filter (\<lambda>i. int i mod 2 + 1 = 2) [0..<2] = [1]"
    by (simp add: upt_conv_Cons)
  have sel3: "filter (\<lambda>i. int i mod 2 + 1 = 2) [0..<3] = [1]"
    by (simp add: upt_conv_Cons)
  note t = batch_group_slot_formula
    [OF g, of sh_sed "''p''" "''dst''" "''data/tv''" "''/r''" "''src''" "''unpack''" "''load''"
       "''batch''" "''data/tv/batch''" 2 batch_world "[''m0'', ''m1'', ''m2'']"]
  from t g show ?thesis
    unfolding listed_batch_world by (simp add: sel sel3)
qed

text \<open>
  C10. For a batch group size \<open>G \<ge> 1\<close> and a batch ordinal outside \<open>1..G\<close>,
  \<open>process_batch_metadata_files\<close> lists the manifests and returns: no manifest is
  assigned, \<open>process_batch\<close> is never called, and the listing is the only call made.
\<close>

theorem ordinal_outside_group_processes_nothing:
  assumes "1 \<le> G" and "k < 1 \<or> G < k"
  shows "process_batch_metadata_files sh pid bucket gp root sf uf lf bf path G k w
           = Done () (log_event (GcsList bucket path) w)
       \<and> assigned_manifests G k fs = []"
proof -
  have e: "assigned_manifests G k fs' = []" for fs'
    unfolding assigned_manifests_def using assigned_from_outside [of G 1 k fs'] assms by simp
  show ?thesis
    unfolding process_batch_metadata_files_def batch_group_loop_runs e by simp
qed

theorem ordinal_outside_group_processes_nothing_witness:
  "(1::int) \<le> 2 \<and> (2::int) < 3
   \<and> process_batch_metadata_files sh_sed ''p'' ''dst'' ''data/tv'' ''/r'' ''src'' ''unpack''
         ''load'' ''batch'' ''data/tv/batch'' 2 3 batch_world
       = Done () (log_event (GcsList ''dst'' ''data/tv/batch'') batch_world)
   \<and> assigned_manifests 2 3 [''m0'', ''m1'', ''m2''] = []"
proof -
  have g: "(1::int) \<le> 2" by simp
  have k: "(3::int) < 1 \<or> (2::int) < 3" by simp
  note t = ordinal_outside_group_processes_nothing
    [OF g k, of sh_sed "''p''" "''dst''" "''data/tv''" "''/r''" "''src''" "''unpack''" "''load''"
       "''batch''" "''data/tv/batch''" batch_world "[''m0'', ''m1'', ''m2'']"]
  from t show ?thesis by simp
qed

section \<open>The staging folders and the dispatch of \<open>main\<close>\<close>

subsection \<open>Paths and places\<close>

lemma split_slash_not_Nil: "split_slash s \<noteq> []"
  by (induction s) auto

lemma split_slash_plain:
  "CHR ''/'' \<notin> set c \<Longrightarrow> split_slash (c @ CHR ''/'' # s) = c # split_slash s"
  by (induction c) auto

lemma split_slash_single: "CHR ''/'' \<notin> set c \<Longrightarrow> split_slash c = [c]"
  by (induction c) auto

lemma split_slash_join:
  "proper cs \<Longrightarrow> cs \<noteq> [] \<Longrightarrow> split_slash (join_parts cs) = cs"
proof (induction cs rule: join_parts.induct)
  case 1
  then show ?case by simp
next
  case (2 c)
  then show ?case by (simp add: proper_def split_slash_single)
next
  case (3 c d ds)
  then have "split_slash (join_parts (d # ds)) = d # ds" by (simp add: proper_def)
  moreover have "CHR ''/'' \<notin> set c" using 3 by (simp add: proper_def)
  ultimately show ?case by (simp add: split_slash_plain)
qed

lemma proper_filter: "proper cs \<Longrightarrow> filter (\<lambda>c. c \<noteq> [] \<and> c \<noteq> ''.'') cs = cs"
  by (induction cs) (auto simp: proper_def)

lemma path_parts_join: "proper cs \<Longrightarrow> path_parts (join_parts cs) = cs"
  by (cases "cs = []") (simp_all add: path_parts_def split_slash_join proper_filter)

lemma path_parts_abs_join: "proper cs \<Longrightarrow> path_parts (CHR ''/'' # join_parts cs) = cs"
  by (cases "cs = []") (simp_all add: path_parts_def split_slash_join proper_filter)

lemma join_parts_hd:
  "proper cs \<Longrightarrow> cs \<noteq> [] \<Longrightarrow> join_parts cs \<noteq> [] \<and> hd (join_parts cs) \<noteq> CHR ''/''"
proof (induction cs rule: join_parts.induct)
  case 1
  then show ?case by simp
next
  case (2 c)
  then show ?case by (cases c) (auto simp: proper_def)
next
  case (3 c d ds)
  then show ?case by (cases c) (auto simp: proper_def)
qed

text \<open>The text under which a made folder is kept resolves to the place it was made at.\<close>

lemma location_of_text_of:
  assumes "proper cs"
  shows "location_of (text_of (ab, cs)) = (ab, cs)"
proof (cases ab)
  case True
  then show ?thesis
    using assms by (simp add: location_of_def text_of_def startswith_def path_parts_abs_join)
next
  case False
  have "\<not> startswith (join_parts cs) ''/''"
  proof (cases "cs = []")
    case True
    then show ?thesis by (simp add: startswith_def)
  next
    case False
    then have "join_parts cs \<noteq> [] \<and> hd (join_parts cs) \<noteq> CHR ''/''"
      using assms by (rule_tac join_parts_hd)
    then show ?thesis by (cases "join_parts cs") (auto simp: startswith_def)
  qed
  with False show ?thesis
    using assms by (simp add: location_of_def text_of_def path_parts_join)
qed

lemma split_slash_no_slash: "c \<in> set (split_slash p) \<Longrightarrow> CHR ''/'' \<notin> set c"
proof (induction p arbitrary: c)
  case Nil
  then show ?case by simp
next
  case (Cons a p)
  obtain x xs where s: "split_slash p = x # xs"
    using split_slash_not_Nil [of p] by (cases "split_slash p") auto
  show ?case
  proof (cases "a = CHR ''/''")
    case True
    then show ?thesis using Cons by auto
  next
    case False
    then have "c = a # x \<or> c \<in> set xs" using Cons.prems s by auto
    then show ?thesis using Cons.IH [of x] Cons.IH [of c] s False by auto
  qed
qed

lemma proper_path_parts: "proper (path_parts p)"
  by (auto simp: proper_def path_parts_def list_all_iff split_slash_no_slash)

lemma set_split_slash:
  "x \<in> set p \<Longrightarrow> x \<noteq> CHR ''/'' \<Longrightarrow> \<exists>c \<in> set (split_slash p). x \<in> set c"
proof (induction p)
  case Nil
  then show ?case by simp
next
  case (Cons a p)
  obtain y ys where s: "split_slash p = y # ys"
    using split_slash_not_Nil [of p] by (cases "split_slash p") auto
  show ?case
  proof (cases "x \<in> set p")
    case True
    then obtain c where c: "c \<in> set (split_slash p)" "x \<in> set c" using Cons by blast
    then show ?thesis using s by (cases "a = CHR ''/''") auto
  next
    case False
    then have "x = a" using Cons.prems by simp
    then show ?thesis using Cons.prems s by auto
  qed
qed

lemma nul_in_parts:
  assumes "CHR 0x00 \<in> set p"
  shows "\<exists>c \<in> set (path_parts p). CHR 0x00 \<in> set c"
proof -
  obtain c where c: "c \<in> set (split_slash p)" "CHR 0x00 \<in> set c"
    using set_split_slash [OF assms] by auto
  then have "c \<noteq> []" "c \<noteq> ''.''" by auto
  with c show ?thesis by (auto simp: path_parts_def)
qed

subsection \<open>Making a folder loses nothing\<close>

lemma node_at_append:
  "node_at (fs @ [(t, n)]) k =
     (case node_at fs k of Some m \<Rightarrow> Some m
      | None \<Rightarrow> if location_of t = k then Some n else None)"
  by (simp add: node_at_def map_add_def split: option.split)

lemma file_at_append_dir: "file_at (fs @ [(t, Dir)]) k = file_at fs k"
  by (simp add: file_at_def node_at_append split: option.split node.split)

lemma grown_refl: "grown fs fs"
  by (simp add: grown_def)

lemma grown_trans: "grown fs fs1 \<Longrightarrow> grown fs1 fs2 \<Longrightarrow> grown fs fs2"
  by (simp add: grown_def)

lemma grown_append_dir: "grown fs (fs @ [(t, Dir)])"
  unfolding grown_def
proof (intro conjI allI impI)
  fix k
  show "file_at (fs @ [(t, Dir)]) k = file_at fs k" by (rule file_at_append_dir)
next
  fix k
  assume d: "dir_at fs k"
  show "dir_at (fs @ [(t, Dir)]) k"
  proof (cases "snd k = []")
    case True
    then show ?thesis by (simp add: dir_at_def)
  next
    case False
    with d have nf: "\<not> file_at fs k"
      and c: "node_at fs k = Some Dir \<or> list_ex (\<lambda>e. below k (location_of (fst e))) fs"
      by (auto simp: dir_at_def)
    from c have "node_at (fs @ [(t, Dir)]) k = Some Dir
        \<or> list_ex (\<lambda>e. below k (location_of (fst e))) (fs @ [(t, Dir)])"
      by (auto simp: node_at_append list_ex_iff)
    with nf show ?thesis by (simp add: dir_at_def file_at_append_dir)
  qed
qed

lemma dir_at_new:
  assumes "\<not> file_at fs k" "location_of t = k"
  shows "dir_at (fs @ [(t, Dir)]) k"
proof (cases "snd k = []")
  case True
  then show ?thesis by (simp add: dir_at_def)
next
  case False
  have "node_at fs k = None \<or> node_at fs k = Some Dir"
    using assms(1) False by (auto simp: file_at_def split: option.splits node.splits)
  then have "node_at (fs @ [(t, Dir)]) k = Some Dir"
    using assms(2) by (auto simp: node_at_append)
  then show ?thesis using assms(1) by (simp add: dir_at_def file_at_append_dir)
qed

lemma grown_file_at: "grown fs fs' \<Longrightarrow> file_at fs' k = file_at fs k"
  unfolding grown_def by blast

lemma grown_dir_at: "grown fs fs' \<Longrightarrow> dir_at fs k \<Longrightarrow> dir_at fs' k"
  unfolding grown_def by blast

lemma grown_file_above: "grown fs fs' \<Longrightarrow> file_above fs' k = file_above fs k"
  by (simp add: file_above_def grown_file_at)

lemma grown_exists:
  assumes "grown fs fs'" "posix_exists fs q"
  shows "posix_exists fs' q"
proof -
  have "dir_at fs' (location_of q) \<or> (file_at fs' (location_of q) \<and> \<not> wants_dir q)"
    using assms grown_dir_at [OF assms(1), of "location_of q"]
    by (auto simp: posix_exists_def grown_file_at)
  then show ?thesis
    using assms by (simp add: posix_exists_def grown_file_above)
qed

lemma grown_isdir:
  assumes "grown fs fs'" "posix_isdir fs q"
  shows "posix_isdir fs' q"
  using assms grown_dir_at [OF assms(1), of "location_of q"]
  by (simp add: posix_isdir_def grown_file_above)

lemma grown_only_dirs:
  assumes "grown fs fs'" "posix_exists fs' q" "\<not> posix_exists fs q"
  shows "posix_isdir fs' q"
proof -
  have "\<not> (file_at fs (location_of q) \<and> \<not> wants_dir q)"
    using assms by (auto simp: posix_exists_def grown_file_above)
  then have "dir_at fs' (location_of q)"
    using assms(1,2) by (auto simp: posix_exists_def grown_file_at)
  then show ?thesis using assms(2) by (simp add: posix_exists_def posix_isdir_def)
qed

lemma make_dirs_grown: "make_dirs ab dot made cs fs = (fs', e) \<Longrightarrow> grown fs fs'"
proof (induction cs arbitrary: made fs)
  case Nil
  then show ?case by (simp add: grown_refl)
next
  case (Cons c cs)
  show ?case
  proof (cases "CHR 0x00 \<in> set c \<or> file_at fs (ab, made @ [c])
                 \<or> (dir_at fs (ab, made @ [c]) \<and> cs = [])")
    case True
    then have "fs' = fs" using Cons.prems by (auto split: if_splits)
    then show ?thesis by (simp add: grown_refl)
  next
    case False
    show ?thesis
    proof (cases "dir_at fs (ab, made @ [c])")
      case True
      then have "make_dirs ab dot (made @ [c]) cs fs = (fs', e)"
        using False Cons.prems by simp
      then show ?thesis by (rule Cons.IH)
    next
      case nd: False
      then have "make_dirs ab dot (made @ [c]) cs (fs @ [(text_of (ab, made @ [c]), Dir)]) = (fs', e)"
        using False Cons.prems by simp
      then have "grown (fs @ [(text_of (ab, made @ [c]), Dir)]) fs'" by (rule Cons.IH)
      then show ?thesis using grown_append_dir grown_trans by blast
    qed
  qed
qed

text \<open>A walk that returns has met no regular file and no NUL character on its way, and
  ends in a directory.\<close>

lemma make_dirs_done:
  assumes "make_dirs ab dot made cs fs = (fs', None)" "cs \<noteq> []" "proper (made @ cs)"
      and "\<forall>n. 1 \<le> n \<and> n \<le> length made \<longrightarrow> \<not> file_at fs (ab, take n made)"
  shows "dir_at fs' (ab, made @ cs)
       \<and> (\<forall>n. 1 \<le> n \<and> n \<le> length (made @ cs) \<longrightarrow> \<not> file_at fs' (ab, take n (made @ cs)))
       \<and> (\<forall>c \<in> set cs. CHR 0x00 \<notin> set c)"
  using assms
proof (induction cs arbitrary: made fs)
  case Nil
  then show ?case by simp
next
  case (Cons c cs)
  let ?k = "(ab, made @ [c])"
  have nul: "CHR 0x00 \<notin> set c" and nf: "\<not> file_at fs ?k"
    using Cons.prems(1) by (auto split: if_splits)
  have pk: "proper (made @ [c])" using Cons.prems(3) by (simp add: proper_def)
  have inv: "\<not> file_at fs (ab, take n (made @ [c]))" if "1 \<le> n" "n \<le> length (made @ [c])" for n
  proof (cases "n \<le> length made")
    case True
    then show ?thesis using Cons.prems(4) that by simp
  next
    case False
    then have "n = Suc (length made)" using that by simp
    then show ?thesis using nf by simp
  qed
  show ?case
  proof (cases "dir_at fs ?k")
    case True
    then have ne: "cs \<noteq> []" and run: "make_dirs ab dot (made @ [c]) cs fs = (fs', None)"
      using Cons.prems(1) nul nf by (auto split: if_splits)
    have "dir_at fs' (ab, (made @ [c]) @ cs)
       \<and> (\<forall>n. 1 \<le> n \<and> n \<le> length ((made @ [c]) @ cs) \<longrightarrow> \<not> file_at fs' (ab, take n ((made @ [c]) @ cs)))
       \<and> (\<forall>c \<in> set cs. CHR 0x00 \<notin> set c)"
      using run ne Cons.prems(3) inv by (intro Cons.IH) auto
    then show ?thesis using nul by simp
  next
    case False
    let ?fs1 = "fs @ [(text_of ?k, Dir)]"
    have run: "make_dirs ab dot (made @ [c]) cs ?fs1 = (fs', None)"
      using Cons.prems(1) nul nf False by simp
    have inv1: "\<not> file_at ?fs1 (ab, take n (made @ [c]))" if "1 \<le> n" "n \<le> length (made @ [c])" for n
      using inv [OF that] by (simp add: file_at_append_dir)
    show ?thesis
    proof (cases "cs = []")
      case True
      then have "fs' = ?fs1" using run by simp
      moreover have "dir_at ?fs1 ?k"
        using nf location_of_text_of [OF pk] by (intro dir_at_new) auto
      ultimately show ?thesis using True inv1 nul by simp
    next
      case ne: False
      have "dir_at fs' (ab, (made @ [c]) @ cs)
         \<and> (\<forall>n. 1 \<le> n \<and> n \<le> length ((made @ [c]) @ cs) \<longrightarrow> \<not> file_at fs' (ab, take n ((made @ [c]) @ cs)))
         \<and> (\<forall>c \<in> set cs. CHR 0x00 \<notin> set c)"
        using run ne Cons.prems(3) inv1 by (intro Cons.IH) auto
      then show ?thesis using nul by simp
    qed
  qed
qed

lemma posix_makedirs_grown: "posix_makedirs p fs = (fs', e) \<Longrightarrow> grown fs fs'"
  by (auto simp: posix_makedirs_def grown_refl make_dirs_grown split: if_splits)

lemma posix_makedirs_done:
  assumes "posix_makedirs p fs = (fs', None)"
  shows "posix_isdir fs' p"
proof -
  let ?ab = "startswith p ''/''"
  have ne: "p \<noteq> []" and pp: "path_parts p \<noteq> []"
    and run: "make_dirs ?ab (dot_last p) [] (path_parts p) fs = (fs', None)"
    using assms by (auto simp: posix_makedirs_def split: if_splits)
  have r: "dir_at fs' (?ab, [] @ path_parts p)
       \<and> (\<forall>n. 1 \<le> n \<and> n \<le> length ([] @ path_parts p) \<longrightarrow> \<not> file_at fs' (?ab, take n ([] @ path_parts p)))
       \<and> (\<forall>c \<in> set (path_parts p). CHR 0x00 \<notin> set c)"
    using run pp by (intro make_dirs_done) (simp_all add: proper_path_parts)
  have "CHR 0x00 \<notin> set p" using r nul_in_parts [of p] by blast
  moreover have "\<not> file_above fs' (location_of p)"
    using r by (auto simp: file_above_def location_of_def list_ex_iff)
  moreover have "dir_at fs' (location_of p)" using r by (simp add: location_of_def)
  ultimately show ?thesis using ne by (simp add: posix_isdir_def)
qed

lemma posix_isdir_exists: "posix_isdir fs q \<Longrightarrow> posix_exists fs q"
  by (simp add: posix_isdir_def posix_exists_def)

text \<open>The behaviour \<open>posix\<close> obeys the laws that the folder proofs ask of an operating
  system.\<close>

lemma os_laws_posix: "os_laws posix"
  unfolding os_laws_def kept_def posix_def
  using posix_makedirs_grown posix_makedirs_done grown_exists grown_isdir grown_only_dirs
    posix_isdir_exists
  by simp blast

text \<open>The behaviour \<open>posix\<close> at some paths: the answers that \<open>os.path.exists\<close> and
  \<open>os.makedirs\<close> give on a Linux machine with these files.\<close>

lemma posix_exists_examples:
  "map (posix_exists small_files)
     ['''', ''.'', ''f'', ''f/'', ''f/.'', ''./f'', ''d'', ''d/'', ''d//e/.'', ''d/g'', ''d/g/x'',
      ''x'', ''d/e'' @ [CHR 0x00]]
   = [False, True, True, False, False, True, True, True, True, True, False,
      False, False]"
  by code_simp

lemma posix_makedirs_examples:
  "map (\<lambda>p. posix_makedirs p small_files)
     ['''', ''.'', ''f'', ''f/.'', ''f/x'', ''d/e'', ''d/g/x/y'']
   = [(small_files, Some FileNotFoundError), (small_files, Some FileExistsError),
      (small_files, Some FileExistsError), (small_files, Some NotADirectoryError),
      (small_files, Some NotADirectoryError), (small_files, Some FileExistsError),
      (small_files, Some NotADirectoryError)]
   \<and> posix_makedirs ''x//y/./z/'' small_files
       = (small_files @ [(''x'', Dir), (''x/y'', Dir), (''x/y/z'', Dir)], None)
   \<and> posix_makedirs (''x/y'' @ [CHR 0x00] @ ''/z'') small_files
       = (small_files @ [(''x'', Dir)], Some ValueError)
   \<and> posix_makedirs ''/r/src'' [] = ([(''/r'', Dir), (''/r/src'', Dir)], None)"
  by code_simp


subsection \<open>\<open>generate_folder_hierarchy\<close> on any operating system\<close>




lemma kept_refl: "kept os fs fs"
  by (simp add: kept_def)

lemma kept_trans:
  assumes "kept os fs fs1" "kept os fs1 fs2"
  shows "kept os fs fs2"
  unfolding kept_def
proof (intro conjI allI impI)
  fix q
  assume "os_path_exists os fs q"
  then show "os_path_exists os fs2 q" using assms unfolding kept_def by blast
next
  fix q
  assume "os_path_isdir os fs q"
  then show "os_path_isdir os fs2 q" using assms unfolding kept_def by blast
next
  fix q
  assume a: "os_path_exists os fs2 q \<and> \<not> os_path_exists os fs q"
  show "os_path_isdir os fs2 q"
  proof (cases "os_path_exists os fs1 q")
    case True
    then have "os_path_isdir os fs1 q" using a assms(1) unfolding kept_def by blast
    then show ?thesis using assms(2) unfolding kept_def by blast
  next
    case False
    then show ?thesis using a assms(2) unfolding kept_def by blast
  qed
qed

lemma ensure_folder_done:
  assumes "os_laws os" "ensure_folder os p w = Done () w'"
  shows "kept os (localfs w) (localfs w') \<and> os_path_exists os (localfs w') p"
proof (cases "os_path_exists os (localfs w) p")
  case True
  then have "w' = w" using assms(2) by (simp add: ensure_folder_def)
  then show ?thesis using True by (simp add: kept_refl)
next
  case False
  then have m: "makedirs_call os p w = Done () w'"
    using assms(2) by (simp add: ensure_folder_def)
  obtain fs' e where r: "os_makedirs os p (localfs w) = (fs', e)"
    by (cases "os_makedirs os p (localfs w)") auto
  have "e = None \<and> localfs w' = fs'"
    using m r by (auto simp: makedirs_call_def log_event_def Let_def split: option.splits)
  then have r': "os_makedirs os p (localfs w) = (localfs w', None)" using r by simp
  have "os_path_isdir os (localfs w') p" "kept os (localfs w) (localfs w')"
    using assms(1) r' unfolding os_laws_def by blast+
  moreover have "os_path_exists os (localfs w') p"
    using calculation(1) assms(1) unfolding os_laws_def by blast
  ultimately show ?thesis by simp
qed

text \<open>When the tests and calls all end normally, every path tested exists, nothing that
  existed is lost, and what is new is a directory.\<close>

lemma ensure_folders_done:
  assumes "os_laws os" "run_steps (map (ensure_folder os) ps) w = Done () w'"
  shows "kept os (localfs w) (localfs w') \<and> (\<forall>p \<in> set ps. os_path_exists os (localfs w') p)"
  using assms(2)
proof (induction ps arbitrary: w)
  case Nil
  then show ?case by (simp add: kept_refl)
next
  case (Cons p ps)
  obtain w1 where 1: "ensure_folder os p w = Done () w1"
    and 2: "run_steps (map (ensure_folder os) ps) w1 = Done () w'"
    using Cons.prems by (cases "ensure_folder os p w") auto
  have k1: "kept os (localfs w) (localfs w1)" and e1: "os_path_exists os (localfs w1) p"
    using ensure_folder_done [OF assms(1) 1] by simp_all
  have k2: "kept os (localfs w1) (localfs w')"
    and e2: "\<forall>q \<in> set ps. os_path_exists os (localfs w') q"
    using Cons.IH [OF 2] by simp_all
  have "os_path_exists os (localfs w') p" using e1 k2 unfolding kept_def by blast
  then show ?case using e2 kept_trans [OF k1 k2] by simp
qed

lemma generate_folder_hierarchy_steps:
  "generate_folder_hierarchy os (target_root_path c) (target_source_folder c)
       (target_unpack_folder c) (target_load_folder c) (target_batch_folder c) w
     = run_steps (map (ensure_folder os) (staging_paths c)) w"
  by (simp add: generate_folder_hierarchy_def staging_paths_def)

text \<open>With any other \<open>pipeline_name\<close>, \<open>main\<close> is \<open>generate_folder_hierarchy\<close>.\<close>

lemma main_other_is_hierarchy:
  assumes "pipeline_name c \<noteq> ''transfer_source''"
      and "pipeline_name c \<noteq> ''generate_batch_metadata_files''"
      and "pipeline_name c \<noteq> ''run_batch_data''"
  shows "main sh os c w = run_steps (map (ensure_folder os) (staging_paths c)) w"
proof (cases "run_steps (map (ensure_folder os) (staging_paths c)) w")
  case (Done u w1)
  then show ?thesis
    using assms by (simp add: main_def generate_folder_hierarchy_steps)
next
  case (Raised e w1)
  then show ?thesis by (simp add: main_def generate_folder_hierarchy_steps)
qed



text \<open>When the staging root is a regular file, the test of the root passes and the first
  \<open>os.makedirs\<close> below it raises.\<close>

lemma main_root_is_a_file:
  "main sh_sed posix example_config file_root_world
     = Raised NotADirectoryError (log_event (OsMakedirs ''/r/src'') file_root_world)"
  by code_simp

subsection \<open>When the folders are made\<close>

text \<open>On the behaviour \<open>posix\<close>, \<open>os.makedirs\<close> returns on a path that does not exist and
  has nothing in its way, and so do the five tests and calls of
  \<open>generate_folder_hierarchy\<close> when nothing is in the way of any staging path.\<close>

lemma split_slash_subset: "c \<in> set (split_slash p) \<Longrightarrow> set c \<subseteq> set p"
proof (induction p arbitrary: c)
  case Nil
  then show ?case by simp
next
  case (Cons a p)
  obtain x xs where s: "split_slash p = x # xs"
    using split_slash_not_Nil [of p] by (cases "split_slash p") auto
  show ?case
  proof (cases "a = CHR ''/''")
    case True
    then have "c = [] \<or> c \<in> set (split_slash p)" using Cons.prems by auto
    then show ?thesis using Cons.IH [of c] by auto
  next
    case False
    then have "c = a # x \<or> c \<in> set xs" using Cons.prems s by auto
    then show ?thesis using Cons.IH [of x] Cons.IH [of c] s by auto
  qed
qed

lemma path_parts_subset: "c \<in> set (path_parts p) \<Longrightarrow> set c \<subseteq> set p"
  by (auto simp: path_parts_def dest: split_slash_subset)

lemma not_dir_at_append:
  assumes "\<not> dir_at fs (ab, made @ c # cs)" "\<not> file_at fs (ab, made @ c # cs)" "cs \<noteq> []"
      and "location_of t = (ab, made @ [c])"
  shows "\<not> dir_at (fs @ [(t, Dir)]) (ab, made @ c # cs)"
proof -
  let ?k = "(ab, made @ c # cs)"
  have n: "node_at fs ?k \<noteq> Some Dir"
    and b: "\<not> list_ex (\<lambda>e. below ?k (location_of (fst e))) fs"
    using assms(1,2) by (auto simp: dir_at_def)
  have "location_of t \<noteq> ?k" using assms(3,4) by simp
  then have "node_at (fs @ [(t, Dir)]) ?k \<noteq> Some Dir"
    using n by (auto simp: node_at_append split: option.splits)
  moreover have "\<not> below ?k (location_of t)"
    using assms(4) by (simp add: below_def)
  then have "\<not> list_ex (\<lambda>e. below ?k (location_of (fst e))) (fs @ [(t, Dir)])"
    using b by (simp add: list_ex_iff)
  ultimately show ?thesis by (simp add: dir_at_def)
qed

lemma make_dirs_returns:
  assumes "\<forall>c \<in> set cs. CHR 0x00 \<notin> set c" "proper (made @ cs)"
      and "\<forall>n. length made < n \<and> n \<le> length (made @ cs) \<longrightarrow> \<not> file_at fs (ab, take n (made @ cs))"
      and "\<not> dir_at fs (ab, made @ cs)"
  shows "\<exists>fs'. make_dirs ab dot made cs fs = (fs', None)"
  using assms
proof (induction cs arbitrary: made fs)
  case Nil
  then show ?case by simp
next
  case (Cons c cs)
  let ?k = "(ab, made @ [c])"
  have nul: "CHR 0x00 \<notin> set c" using Cons.prems(1) by simp
  have "\<not> file_at fs (ab, take (Suc (length made)) (made @ c # cs))"
    using Cons.prems(3) by (intro Cons.prems(3) [rule_format]) simp
  then have nf: "\<not> file_at fs ?k" by simp
  have pk: "proper (made @ [c])" using Cons.prems(2) by (simp add: proper_def)
  have files: "\<not> file_at fs (ab, take n ((made @ [c]) @ cs))"
    if "length (made @ [c]) < n \<and> n \<le> length ((made @ [c]) @ cs)" for n
    using Cons.prems(3) that by simp
  show ?case
  proof (cases "cs = []")
    case True
    then have "\<not> dir_at fs ?k" using Cons.prems(4) by simp
    then show ?thesis using True nul nf by simp
  next
    case ne: False
    have nft: "\<not> file_at fs (ab, made @ c # cs)"
      using Cons.prems(3) [rule_format, of "length (made @ c # cs)"] by simp
    show ?thesis
    proof (cases "dir_at fs ?k")
      case True
      have "\<exists>fs'. make_dirs ab dot (made @ [c]) cs fs = (fs', None)"
        using Cons.prems files by (intro Cons.IH) auto
      then show ?thesis using True nul nf ne by simp
    next
      case False
      let ?fs1 = "fs @ [(text_of ?k, Dir)]"
      have "\<not> dir_at ?fs1 (ab, made @ c # cs)"
        using Cons.prems(4) nft ne location_of_text_of [OF pk] by (intro not_dir_at_append) auto
      then have "\<exists>fs'. make_dirs ab dot (made @ [c]) cs ?fs1 = (fs', None)"
        using Cons.prems(1,2) files by (intro Cons.IH) (auto simp: file_at_append_dir)
      then show ?thesis using False nul nf by simp
    qed
  qed
qed

lemma posix_makedirs_returns:
  assumes "clear_path fs p" "\<not> posix_exists fs p"
  shows "\<exists>fs'. posix_makedirs p fs = (fs', None)"
proof -
  have ne: "p \<noteq> []" and nul: "CHR 0x00 \<notin> set p"
    and fa: "\<not> file_above fs (location_of p)" and nf: "\<not> file_at fs (location_of p)"
    using assms(1) by (simp_all add: clear_path_def)
  have nd: "\<not> dir_at fs (location_of p)"
    using assms(2) ne nul fa by (simp add: posix_exists_def)
  then have pp: "path_parts p \<noteq> []" by (auto simp: dir_at_def location_of_def)
  let ?ab = "startswith p ''/''"
  have 1: "\<forall>c \<in> set (path_parts p). CHR 0x00 \<notin> set c"
    using nul path_parts_subset by blast
  have 3: "\<not> file_at fs (?ab, take n ([] @ path_parts p))"
    if "length ([] :: string list) < n \<and> n \<le> length ([] @ path_parts p)" for n
  proof (cases "n = length (path_parts p)")
    case True
    then show ?thesis using nf by (simp add: location_of_def)
  next
    case False
    then have "n \<in> set [1..<length (path_parts p)]" using that by auto
    then show ?thesis using fa by (auto simp: file_above_def location_of_def list_ex_iff)
  qed
  have "\<exists>fs'. make_dirs ?ab (dot_last p) [] (path_parts p) fs = (fs', None)"
    using 1 3 nd by (intro make_dirs_returns) (auto simp: proper_path_parts location_of_def)
  then show ?thesis using ne pp by (simp add: posix_makedirs_def)
qed

lemma grown_clear_path: "grown fs fs' \<Longrightarrow> clear_path fs p \<Longrightarrow> clear_path fs' p"
  by (simp add: clear_path_def grown_file_above grown_file_at)

lemma ensure_folder_returns:
  assumes "clear_path (localfs w) p"
  shows "\<exists>w'. ensure_folder posix p w = Done () w' \<and> grown (localfs w) (localfs w')"
proof (cases "posix_exists (localfs w) p")
  case True
  then show ?thesis by (simp add: ensure_folder_def posix_def grown_refl)
next
  case False
  then obtain fs' where r: "posix_makedirs p (localfs w) = (fs', None)"
    using posix_makedirs_returns [OF assms] by blast
  then have "grown (localfs w) fs'" by (rule posix_makedirs_grown)
  then show ?thesis
    using False r by (simp add: ensure_folder_def posix_def makedirs_call_def log_event_def)
qed

lemma ensure_folders_return:
  assumes "\<forall>p \<in> set ps. clear_path (localfs w) p"
  shows "\<exists>w'. run_steps (map (ensure_folder posix) ps) w = Done () w'"
  using assms
proof (induction ps arbitrary: w)
  case Nil
  then show ?case by simp
next
  case (Cons p ps)
  obtain w1 where 1: "ensure_folder posix p w = Done () w1"
    and g: "grown (localfs w) (localfs w1)"
    using ensure_folder_returns [of w p] Cons.prems by auto
  have "\<forall>q \<in> set ps. clear_path (localfs w1) q"
    using Cons.prems g by (auto intro: grown_clear_path)
  then obtain w' where "run_steps (map (ensure_folder posix) ps) w1 = Done () w'"
    using Cons.IH by blast
  then show ?case using 1 by simp
qed

text \<open>With any other \<open>pipeline_name\<close>, on the behaviour \<open>posix\<close> and with nothing in
  the way of a staging path, \<open>main\<close> returns and the five staging paths are
  directories.\<close>

lemma main_returns_on_posix:
  assumes "pipeline_name c \<noteq> ''transfer_source''"
      and "pipeline_name c \<noteq> ''generate_batch_metadata_files''"
      and "pipeline_name c \<noteq> ''run_batch_data''"
      and "\<forall>p \<in> set (staging_paths c). clear_path (localfs w) p"
  shows "\<exists>w'. main sh posix c w = Done () w'
            \<and> (\<forall>p \<in> set (staging_paths c). posix_isdir (localfs w') p)"
proof -
  have m: "main sh posix c w = run_steps (map (ensure_folder posix) (staging_paths c)) w"
    using assms(1-3) by (rule main_other_is_hierarchy)
  obtain w' where r: "run_steps (map (ensure_folder posix) (staging_paths c)) w = Done () w'"
    using ensure_folders_return [OF assms(4)] by blast
  have k: "kept posix (localfs w) (localfs w')"
    and e: "\<forall>p \<in> set (staging_paths c). os_path_exists posix (localfs w') p"
    using ensure_folders_done [OF os_laws_posix r] by simp_all
  have "posix_isdir (localfs w') p" if p: "p \<in> set (staging_paths c)" for p
  proof (cases "posix_exists (localfs w) p")
    case True
    then have "posix_isdir (localfs w) p"
      using assms(4) p by (auto simp: clear_path_def posix_exists_def posix_isdir_def)
    then show ?thesis using k by (simp add: kept_def posix_def)
  next
    case False
    then show ?thesis using k e p by (simp add: kept_def posix_def)
  qed
  then show ?thesis using m r by simp
qed




section \<open>The pre-clean step of manifest generation\<close>

lemma remove_gcs_path_result:
  "remove_gcs_path b p w =
     Done ()
       (w\<lparr>trace := trace w @ [GcsList b (drop_path_of p @ ''/''),
                                GcsDelete b (list_blobs b (drop_path_of p @ ''/'') w)],
          gcs := filter (\<lambda>e. \<not> under_prefix b (drop_path_of p @ ''/'') e) (gcs w)\<rparr>)"
proof -
  have "filter (\<lambda>e. \<not> (fst (fst e) = b \<and> snd (fst e) \<in> set (list_blobs b (drop_path_of p @ ''/'') w))) (gcs w)
      = filter (\<lambda>e. \<not> under_prefix b (drop_path_of p @ ''/'') e) (gcs w)"
    by (rule filter_cong) (auto simp: list_blobs_def under_prefix_def)
  then show ?thesis
    by (simp add: remove_gcs_path_def Let_def log_event_def drop_path_of_def list_blobs_def)
qed

lemma basename_folder:
  assumes "CHR ''/'' \<notin> set f"
  shows "basename (gp @ CHR ''/'' # f) = f"
proof -
  have "takeWhile (\<lambda>c. c \<noteq> CHR ''/'') (rev f @ CHR ''/'' # rev gp) = rev f"
    using assms by (subst takeWhile_append2) auto
  then show ?thesis by (simp add: basename_def)
qed

lemma drop_path_of_folder:
  assumes "CHR ''/'' \<notin> set f" "gp \<noteq> []" "last gp \<noteq> CHR ''/''"
  shows "drop_path_of (gp @ ''/'' @ f) = gp"
proof -
  have b: "basename (gp @ ''/'' @ f) = f" using assms(1) by (simp add: basename_folder)
  have h: "take (length (gp @ ''/'' @ f) - length f) (gp @ ''/'' @ f) = gp @ ''/''" by simp
  have "last gp \<in> set gp" using assms(2) by simp
  then have na: "\<not> list_all (\<lambda>c. c = CHR ''/'') (gp @ ''/'')"
    using assms(3) by (auto simp: list_all_iff)
  have "dropWhile (\<lambda>c. c = CHR ''/'') (rev gp) = rev gp"
    using assms(2,3) by (cases gp rule: rev_cases) simp_all
  then have r: "rstrip_slash (gp @ ''/'') = gp"
    by (simp add: rstrip_slash_def)
  show ?thesis
    unfolding drop_path_of_def os_path_split_def Let_def b h using na r by simp
qed

text \<open>On every object store the two calls return, and what they delete is what lies
  under the parent directory (\<open>os.path.split(path)[0]\<close>, then a slash) of the path they
  are given, not under the path itself.\<close>

lemma pre_clean_parent_prefixes:
  "\<exists>w'. pre_clean c w = Done () w'
      \<and> gcs w' =
          filter (\<lambda>e. \<not> (under_prefix (target_gcs_bucket c)
                            (drop_path_of (target_gcs_path c @ ''/'' @ target_load_folder c) @ ''/'') e
                        \<or> under_prefix (target_gcs_bucket c)
                            (drop_path_of (target_gcs_path c @ ''/'' @ target_batch_folder c) @ ''/'') e))
            (gcs w)
      \<and> localfs w' = localfs w"
proof -
  let ?b = "target_gcs_bucket c"
  let ?pl = "drop_path_of (target_gcs_path c @ ''/'' @ target_load_folder c) @ ''/''"
  let ?pb = "drop_path_of (target_gcs_path c @ ''/'' @ target_batch_folder c) @ ''/''"
  obtain w' where run: "pre_clean c w = Done () w'"
    and g: "gcs w' = filter (\<lambda>e. \<not> under_prefix ?b ?pb e) (filter (\<lambda>e. \<not> under_prefix ?b ?pl e) (gcs w))"
    and l: "localfs w' = localfs w"
    by (simp add: pre_clean_def remove_gcs_path_result)
  have "gcs w' = filter (\<lambda>e. \<not> (under_prefix ?b ?pl e \<or> under_prefix ?b ?pb e)) (gcs w)"
    unfolding g by (simp add: conj_commute)
  with run l show ?thesis by blast
qed

text \<open>For folder names without a slash, under a \<open>target_gcs_path\<close> that is not empty and
  does not end in a slash, both calls clear the same prefix, \<open>target_gcs_path/\<close>: the
  second finds nothing left to delete.\<close>

lemma pre_clean_same_parent:
  assumes "CHR ''/'' \<notin> set (target_load_folder c)" "CHR ''/'' \<notin> set (target_batch_folder c)"
      and "target_gcs_path c \<noteq> []" "last (target_gcs_path c) \<noteq> CHR ''/''"
  shows "\<exists>w'. pre_clean c w = Done () w'
           \<and> gcs w' = filter (\<lambda>e. \<not> under_prefix (target_gcs_bucket c) (target_gcs_path c @ ''/'') e)
                        (gcs w)"
proof -
  have "drop_path_of (target_gcs_path c @ ''/'' @ target_load_folder c) = target_gcs_path c"
    using assms by (intro drop_path_of_folder) simp_all
  moreover have "drop_path_of (target_gcs_path c @ ''/'' @ target_batch_folder c) = target_gcs_path c"
    using assms by (intro drop_path_of_folder) simp_all
  ultimately show ?thesis
    using pre_clean_parent_prefixes [of c w] by auto
qed

text \<open>With an empty \<open>target_gcs_path\<close> the paths are \<open>/load\<close> and \<open>/batch\<close>, the prefix
  listed is \<open>//\<close>, and nothing is deleted: not even the objects under \<open>/load\<close> and
  \<open>/batch\<close>.\<close>

lemma pre_clean_empty_gcs_path:
  "pre_clean (example_config\<lparr>target_gcs_path := []\<rparr>)
       \<lparr>localfs = [], gcs = [((''dst'', ''/load/a''), Text []), ((''dst'', ''/batch/m''), Text [])],
        trace = []\<rparr>
     = Done ()
         \<lparr>localfs = [], gcs = [((''dst'', ''/load/a''), Text []), ((''dst'', ''/batch/m''), Text [])],
          trace = [GcsList ''dst'' ''//'', GcsDelete ''dst'' [], GcsList ''dst'' ''//'',
                   GcsDelete ''dst'' []]\<rparr>"
  by code_simp

text \<open>
  C7 on the code. With \<open>target_gcs_path = data/tv\<close> and the folders \<open>load\<close> and
  \<open>batch\<close>, the first call, made with \<open>data/tv/load\<close>, lists \<open>data/tv/\<close> and deletes the
  load output, the manifest and also \<open>data/tv/files/a.tar.gz\<close>, which lies under neither
  \<open>data/tv/load\<close> nor \<open>data/tv/batch\<close>; the second call, made with \<open>data/tv/batch\<close>,
  lists the same prefix and finds nothing to delete.
\<close>

theorem pre_clean_deletes_sibling_objects:
  "pre_clean example_config clean_world =
     Done ()
       \<lparr>localfs = [],
        gcs = [((''dst'', ''other/keep.txt''), Text []), ((''srcb'', ''data/tv/x''), Text [])],
        trace = [GcsList ''dst'' ''data/tv/'',
                 GcsDelete ''dst'' [''data/tv/load/out1.log'',
                   ''data/tv/batch/batch_metadata-000001.txt'', ''data/tv/files/a.tar.gz''],
                 GcsList ''dst'' ''data/tv/'', GcsDelete ''dst'' []]\<rparr>
   \<and> ((''dst'', ''data/tv/files/a.tar.gz''), Tar []) \<in> set (gcs clean_world)
   \<and> \<not> startswith ''data/tv/files/a.tar.gz''
         (target_gcs_path example_config @ ''/'' @ target_load_folder example_config)
   \<and> \<not> startswith ''data/tv/files/a.tar.gz''
         (target_gcs_path example_config @ ''/'' @ target_batch_folder example_config)"
proof -
  have "pre_clean example_config clean_world =
     Done ()
       \<lparr>localfs = [],
        gcs = [((''dst'', ''other/keep.txt''), Text []), ((''srcb'', ''data/tv/x''), Text [])],
        trace = [GcsList ''dst'' ''data/tv/'',
                 GcsDelete ''dst'' [''data/tv/load/out1.log'',
                   ''data/tv/batch/batch_metadata-000001.txt'', ''data/tv/files/a.tar.gz''],
                 GcsList ''dst'' ''data/tv/'', GcsDelete ''dst'' []]\<rparr>"
    by code_simp
  then show ?thesis
    by (simp add: clean_world_def example_config_def startswith_def)
qed

section \<open>Manifest generation\<close>

lemma written_files_append: "written_files (xs @ ys) = written_files xs @ written_files ys"
  by (induction xs rule: written_files.induct) simp_all

lemma save_to_new_file_result:
  "save_to_new_file df p w =
     Done () (w\<lparr>trace := trace w @ [WriteFile p], localfs := fs_put p (File (Frame df)) (localfs w)\<rparr>)"
  by (simp add: save_to_new_file_def write_file_def log_event_def Let_def)

lemma read_file_cases:
  "(\<exists>c w1. read_file p w = Done c w1 \<and> written_files (trace w1) = written_files (trace w))
   \<or> (\<exists>e w1. read_file p w = Raised e w1 \<and> written_files (trace w1) = written_files (trace w))"
  by (simp add: read_file_def log_event_def Let_def written_files_append
      split: option.splits node.splits)

lemma upload_written: "written (upload_file_to_gcs f b p w) = written_files (trace w)"
proof -
  let ?w1 = "log_event (GcsUpload f b p) w"
  have t: "written_files (trace ?w1) = written_files (trace w)"
    by (simp add: log_event_def written_files_append)
  from read_file_cases [of f ?w1] show ?thesis
    by (auto simp: upload_file_to_gcs_def Let_def written_def world_of_def t)
qed

lemma flush_written:
  "written (run_steps [save_to_new_file df p, upload_file_to_gcs p b q] w)
     = written_files (trace w) @ [p]"
proof -
  let ?w1 = "w\<lparr>trace := trace w @ [WriteFile p], localfs := fs_put p (File (Frame df)) (localfs w)\<rparr>"
  have u: "written (upload_file_to_gcs p b q ?w1) = written_files (trace w) @ [p]"
    by (simp add: upload_written written_files_append)
  show ?thesis
    using u
    by (cases "upload_file_to_gcs p b q ?w1")
       (simp_all add: save_to_new_file_result written_def world_of_def)
qed

lemma generate_body_step:
  assumes "0 \<le> batch_number st"
  shows "case generate_body bn src len tb root bf ft tot blob st w of
           Raised e w' \<Rightarrow>
             written_files (trace w') = written_files (trace w)
             \<or> (0 < batch_number st
                 \<and> written_files (trace w')
                     = written_files (trace w) @ [batch_metadata_path root bf (batch_number st)])
         | Done st' w' \<Rightarrow>
             (batch_number st' = batch_number st
                \<and> written_files (trace w') = written_files (trace w))
             \<or> (batch_number st' = batch_number st + 1
                 \<and> written_files (trace w')
                     = written_files (trace w)
                       @ (if 0 < batch_number st
                          then [batch_metadata_path root bf (batch_number st)] else []))"
proof -
  let ?p = "batch_metadata_path root bf (batch_number st)"
  let ?flush = "run_steps
      [save_to_new_file (df_filelist st) ?p,
       upload_file_to_gcs ?p tb (root @ ''/'' @ bf @ ''/'' @ basename ?p)] w"
  have fl: "written ?flush = written_files (trace w) @ [?p]" by (rule flush_written)
  show ?thesis
  proof (cases ?flush)
    case (Done u w1)
    then have "written_files (trace w1) = written_files (trace w) @ [?p]"
      using fl by (simp add: written_def world_of_def)
    with Done show ?thesis
      by (simp add: generate_body_def blob_filename_total Let_def split: option.splits)
  next
    case (Raised e w1)
    then have "written_files (trace w1) = written_files (trace w) @ [?p]"
      using fl by (simp add: written_def world_of_def)
    with Raised show ?thesis
      by (simp add: generate_body_def blob_filename_total Let_def split: option.splits)
  qed
qed

lemma generate_loop_written:
  "0 \<le> batch_number st \<Longrightarrow>
   \<exists>k. written (generate_loop bn src len tb root bf ft tot blobs st w)
        = written_files (trace w)
          @ map (\<lambda>i. batch_metadata_path root bf (max 1 (batch_number st) + int i)) [0..<k]"
proof (induction blobs arbitrary: st w)
  case Nil
  show ?case
    by (rule exI [of _ 0]) (simp add: generate_loop_def written_def world_of_def)
next
  case (Cons blob blobs)
  let ?path = "batch_metadata_path root bf"
  note step = generate_body_step [OF Cons.prems, where bn = bn and src = src and len = len
      and tb = tb and root = root and bf = bf and ft = ft and tot = tot and blob = blob and w = w]
  show ?case
  proof (cases "generate_body bn src len tb root bf ft tot blob st w")
    case (Raised e w')
    then have r: "generate_loop bn src len tb root bf ft tot (blob # blobs) st w = Raised e w'"
      by (simp add: generate_loop_def)
    from step Raised consider
      "written_files (trace w') = written_files (trace w)"
      | "0 < batch_number st" "written_files (trace w') = written_files (trace w) @ [?path (batch_number st)]"
      by auto
    then show ?thesis
    proof cases
      case 1
      then show ?thesis
        by (intro exI [of _ 0]) (simp add: r written_def world_of_def)
    next
      case 2
      then have "max 1 (batch_number st) = batch_number st" by simp
      with 2 show ?thesis
        by (intro exI [of _ 1]) (simp add: r written_def world_of_def)
    qed
  next
    case (Done st' w')
    then have r: "generate_loop bn src len tb root bf ft tot (blob # blobs) st w
        = generate_loop bn src len tb root bf ft tot blobs st' w'"
      by (simp add: generate_loop_def)
    from step Done consider
      (same) "batch_number st' = batch_number st" "written_files (trace w') = written_files (trace w)"
      | (first) "batch_number st = 0" "batch_number st' = 1"
          "written_files (trace w') = written_files (trace w)"
      | (flush) "0 < batch_number st" "batch_number st' = batch_number st + 1"
          "written_files (trace w') = written_files (trace w) @ [?path (batch_number st)]"
      using Cons.prems by (auto split: if_splits)
    then show ?thesis
    proof cases
      case same
      then have "0 \<le> batch_number st'" using Cons.prems by simp
      from Cons.IH [OF this, of w'] same show ?thesis by (simp add: r)
    next
      case first
      then have "0 \<le> batch_number st'" by simp
      from Cons.IH [OF this, of w'] first show ?thesis by (simp add: r)
    next
      case flush
      then have "0 \<le> batch_number st'" by simp
      from Cons.IH [OF this, of w'] obtain k where
        k: "written (generate_loop bn src len tb root bf ft tot blobs st' w')
            = written_files (trace w')
              @ map (\<lambda>i. ?path (max 1 (batch_number st') + int i)) [0..<k]"
        by blast
      have m: "max 1 (batch_number st) = batch_number st"
        "max 1 (batch_number st + 1) = batch_number st + 1" using flush by simp_all
      have e: "map (\<lambda>i. ?path (batch_number st + int i)) [0..<Suc k]
          = ?path (batch_number st) # map (\<lambda>i. ?path (batch_number st + 1 + int i)) [0..<k]"
        by (simp add: upt_conv_Cons map_Suc_upt [symmetric] add.assoc del: upt_Suc)
      show ?thesis
        by (intro exI [of _ "Suc k"])
           (simp only: r k flush(2,3) m e append_assoc append_Cons append_Nil)
    qed
  qed
qed

text \<open>
  C6, amended. In every run of manifest generation, whether it returns or raises, the
  local files it writes are, in order, the manifests numbered \<open>1, 2, ..., k\<close> for some
  \<open>k\<close> (zero-padded to six digits in the file name): the numbers increase by one and the
  first manifest written is number 1.
\<close>

theorem manifest_numbers_start_at_one:
  "\<exists>k. written_files (trace (world_of
           (generate_batch_metadata_files pid src len tb root bf ft w)))
        = written_files (trace w) @ map (\<lambda>n. batch_metadata_path root bf (int n)) [1..<Suc k]"
proof -
  have shift: "map (\<lambda>i. batch_metadata_path root bf (max 1 0 + int i)) [0..<k]
      = map (\<lambda>n. batch_metadata_path root bf (int n)) [1..<Suc k]" for k
  proof -
    have "[1..<Suc k] = map Suc [0..<k]" by (simp add: map_Suc_upt)
    then show ?thesis by (simp add: comp_def add.commute)
  qed
  have none: "\<exists>k. written_files (trace w)
        = written_files (trace w) @ map (\<lambda>n. batch_metadata_path root bf (int n)) [1..<Suc k]"
    by (rule exI [of _ 0]) simp
  show ?thesis
  proof (cases "bucket_of src")
    case None
    then show ?thesis using none
      by (simp add: generate_batch_metadata_files_def world_of_def)
  next
    case (Some b)
    show ?thesis
    proof (cases "count_files_in_gcs_bucket pid src ''.tar.gz'' w")
      case (Raised e w1)
      then have "written_files (trace w1) = written_files (trace w)"
        by (auto simp: count_files_in_gcs_bucket_def Some Let_def log_event_def written_files_append
            split: option.splits)
      with Raised Some none show ?thesis
        by (simp add: generate_batch_metadata_files_def world_of_def)
    next
      case (Done tot w1)
      then have t1: "written_files (trace w1) = written_files (trace w)"
        by (auto simp: count_files_in_gcs_bucket_def Some Let_def log_event_def written_files_append
            split: option.splits)
      define prefix where "prefix = py_replace (py_replace src ''gs://'' []) (b @ ''/'') []"
      define w2 where "w2 = log_event (GcsList b prefix) w1"
      define st0 where "st0 = \<lparr>file_counter = 0, batch_number = 0, df_filelist = []\<rparr>"
      have t2: "written_files (trace w2) = written_files (trace w)"
        by (simp add: w2_def log_event_def written_files_append t1)
      have "0 \<le> batch_number st0" by (simp add: st0_def)
      from generate_loop_written [OF this, where bn = b and src = src and len = len and tb = tb
        and root = root and bf = bf and ft = ft and tot = tot
        and blobs = "list_blobs b prefix w2" and w = w2]
      obtain k where k: "written (generate_loop b src len tb root bf ft tot (list_blobs b prefix w2) st0 w2)
          = written_files (trace w) @ map (\<lambda>n. batch_metadata_path root bf (int n)) [1..<Suc k]"
        unfolding t2 using shift by (auto simp: st0_def)
      have "world_of (generate_batch_metadata_files pid src len tb root bf ft w)
          = world_of (generate_loop b src len tb root bf ft tot (list_blobs b prefix w2) st0 w2)"
        by (simp add: generate_batch_metadata_files_def Some Done Let_def prefix_def w2_def st0_def
            world_of_def split: result.splits)
      with k show ?thesis unfolding written_def by auto
    qed
  qed
qed

lemma generate_example:
  "generate_batch_metadata_files ''p'' ''gs://srcb/data'' ''2'' ''dst'' ''/r'' ''batch'' ''.tar.gz''
     gen_world =
   Done ()
     \<lparr>localfs = staging_folders @
        [(''/r/batch/batch_metadata-000001.txt'',
          File (Frame [(''gs://srcb/data/a.tar.gz'', ''a'', 1), (''gs://srcb/data/b.tar.gz'', ''b'', 1)])),
         (''/r/batch/batch_metadata-000002.txt'',
          File (Frame [(''gs://srcb/data/c.tar.gz'', ''c'', 2), (''gs://srcb/data/d.tar.gz'', ''d'', 2)]))],
      gcs = gcs gen_world @
        [((''dst'', ''/r/batch/batch_metadata-000001.txt''),
          Frame [(''gs://srcb/data/a.tar.gz'', ''a'', 1), (''gs://srcb/data/b.tar.gz'', ''b'', 1)]),
         ((''dst'', ''/r/batch/batch_metadata-000002.txt''),
          Frame [(''gs://srcb/data/c.tar.gz'', ''c'', 2), (''gs://srcb/data/d.tar.gz'', ''d'', 2)])],
      trace =
        [GcsList ''srcb'' [], GcsList ''srcb'' ''data'',
         WriteFile ''/r/batch/batch_metadata-000001.txt'',
         GcsUpload ''/r/batch/batch_metadata-000001.txt'' ''dst'' ''/r/batch/batch_metadata-000001.txt'',
         ReadFile ''/r/batch/batch_metadata-000001.txt'',
         WriteFile ''/r/batch/batch_metadata-000002.txt'',
         GcsUpload ''/r/batch/batch_metadata-000002.txt'' ''dst'' ''/r/batch/batch_metadata-000002.txt'',
         ReadFile ''/r/batch/batch_metadata-000002.txt'']\<rparr>"
  by code_simp


text \<open>
  C6, as the spec states it, fails: with five archives and batch length 2 the manifests
  written are numbers 1 and 2; no manifest numbered 0 is written.
\<close>

theorem manifest_numbers_counterexample:
  "written (generate_batch_metadata_files ''p'' ''gs://srcb/data'' ''2'' ''dst'' ''/r'' ''batch''
      ''.tar.gz'' gen_world)
     = [''/r/batch/batch_metadata-000001.txt'', ''/r/batch/batch_metadata-000002.txt'']
   \<and> batch_metadata_path ''/r'' ''batch'' 0 = ''/r/batch/batch_metadata-000000.txt''
   \<and> batch_metadata_path ''/r'' ''batch'' 0
       \<notin> set (written (generate_batch_metadata_files ''p'' ''gs://srcb/data'' ''2'' ''dst'' ''/r''
                  ''batch'' ''.tar.gz'' gen_world))"
  unfolding generate_example by code_simp

text \<open>
  C1 at the spec's own example (five objects, batch length 2, so that three manifests
  with 2, 2 and 1 records are claimed): the run returns normally having written and
  uploaded two manifests, with the records of \<open>a, b\<close> and of \<open>c, d\<close>. The record of
  \<open>e.tar.gz\<close> is built in memory and never flushed: the loop ends without a last write.
\<close>

theorem five_objects_batch_length_two:
  "length (list_blobs ''srcb'' ''data'' gen_world) = 5
   \<and> raised (generate_batch_metadata_files ''p'' ''gs://srcb/data'' ''2'' ''dst'' ''/r'' ''batch''
        ''.tar.gz'' gen_world) = None
   \<and> manifests_in ''dst'' (gcs (world_of
        (generate_batch_metadata_files ''p'' ''gs://srcb/data'' ''2'' ''dst'' ''/r'' ''batch''
           ''.tar.gz'' gen_world)))
     = [(''/r/batch/batch_metadata-000001.txt'',
           [(''gs://srcb/data/a.tar.gz'', ''a'', 1), (''gs://srcb/data/b.tar.gz'', ''b'', 1)]),
        (''/r/batch/batch_metadata-000002.txt'',
           [(''gs://srcb/data/c.tar.gz'', ''c'', 2), (''gs://srcb/data/d.tar.gz'', ''d'', 2)])]"
  unfolding generate_example by code_simp

section \<open>Processing a batch\<close>

text \<open>With the file name as a word of its own, the modelled \<open>sed\<close> does rewrite the record
  line (the command below is the program's, for a file name that begins with a blank).\<close>

lemma sed_with_file_operand:
  "sh_sed (add_id_cmd ''g1'' '' /r/load/outg1.log'')
     \<lparr>localfs = [(''/r/load/outg1.log'', File (Text [frame_line ''1'', ''other'']))],
      gcs = [], trace = []\<rparr>
   = Done ()
     \<lparr>localfs = [(''/r/load/outg1.log'',
          File (Text [''{'' @ [dquote] @ ''id'' @ [dquote] @ '': '' @ [dquote] @ ''g1'' @ [dquote]
                        @ '', '' @ [dquote] @ ''frame'' @ [dquote] @ '': 1}'',
                      ''other'']))],
      gcs = [], trace = []\<rparr>"
  by code_simp

text \<open>At the example: the copy is made, the command fails, and the copy still holds the
  lines of the source.\<close>

lemma add_id_column_example:
  "sh_lex Plain None (add_id_cmd ''g1'' ''/r/load/outg1.log'')
     = Some [''sed'', ''-i'', ''-e'',
             ''s/{'' @ [bslash, dquote] @ ''frame'' @ [bslash, dquote] @ ''/{'' @ [dquote] @ ''id''
               @ [dquote] @ '': '' @ [bslash, dquote] @ ''g1'' @ [bslash, dquote] @ '', ''
               @ [bslash, dquote] @ ''frame'' @ [bslash, dquote] @ ''/g'' @ ''/r/load/outg1.log'']
   \<and> add_id_column sh_sed ''/r/unpack/g1/out.log'' ''/r/load/outg1.log'' ''g1'' add_id_world
     = Raised CalledProcessError
         \<lparr>localfs = staging_folders
                     @ [(''/r/unpack/g1/out.log'', File (Text [frame_line ''1'', ''other''])),
                        (''/r/load/outg1.log'', File (Text [frame_line ''1'', ''other'']))],
          gcs = [],
          trace = [CopyFile ''/r/unpack/g1/out.log'' ''/r/load/outg1.log'',
                   Shell (add_id_cmd ''g1'' ''/r/load/outg1.log'')]\<rparr>"
  by code_simp

text \<open>
  C4 at a manifest with two records. On a shell where the rewrite command succeeds,
  \<open>process_batch\<close> deletes the archive, the rewritten file and the unpacked directory of
  the first record and then the manifest itself, before the second record is downloaded;
  after the second record the same \<open>os.unlink(batch_filename)\<close> raises
  \<open>FileNotFoundError\<close>. On \<open>sh_sed\<close> the rewrite command of the first record fails
  (\<open>CalledProcessError\<close>), and nothing is deleted: the manifest, the archive, the unpacked
  log and its copy are left behind.
\<close>

theorem process_batch_two_records:
  "raised (process_batch quiet_shell ''p'' ''data/tv/batch/batch_metadata-000001.txt'' ''dst''
      ''data/tv'' ''/r'' ''src'' ''unpack'' ''load'' ''batch'' batch_world) = Some FileNotFoundError
   \<and> trace (world_of (process_batch quiet_shell ''p'' ''data/tv/batch/batch_metadata-000001.txt''
      ''dst'' ''data/tv'' ''/r'' ''src'' ''unpack'' ''load'' ''batch'' batch_world))
     = [GcsDownload ''dst'' ''data/tv/batch/batch_metadata-000001.txt''
          ''/r/batch/batch_metadata-000001.txt'',
        WriteFile ''/r/batch/batch_metadata-000001.txt'',
        ReadFile ''/r/batch/batch_metadata-000001.txt'',
        GcsDownload ''srcb'' ''data/a.tar.gz'' ''/r/src/a.tar.gz'',
        WriteFile ''/r/src/a.tar.gz'',
        TarExtract ''/r/src/a.tar.gz'' ''/r/unpack'',
        CopyFile ''/r/unpack/a/out.log'' ''/r/load/outa.log'',
        Shell (add_id_cmd ''a'' ''/r/load/outa.log''),
        GcsUpload ''/r/load/outa.log'' ''dst'' ''data/tv/load/outa.log'',
        ReadFile ''/r/load/outa.log'',
        OsUnlink ''/r/src/a.tar.gz'',
        OsUnlink ''/r/load/outa.log'',
        OsRmtree ''/r/unpack/a'',
        OsUnlink ''/r/batch/batch_metadata-000001.txt'',
        GcsDownload ''srcb'' ''data/b.tar.gz'' ''/r/src/b.tar.gz'',
        WriteFile ''/r/src/b.tar.gz'',
        TarExtract ''/r/src/b.tar.gz'' ''/r/unpack'',
        CopyFile ''/r/unpack/b/out.log'' ''/r/load/outb.log'',
        Shell (add_id_cmd ''b'' ''/r/load/outb.log''),
        GcsUpload ''/r/load/outb.log'' ''dst'' ''data/tv/load/outb.log'',
        ReadFile ''/r/load/outb.log'',
        OsUnlink ''/r/src/b.tar.gz'',
        OsUnlink ''/r/load/outb.log'',
        OsRmtree ''/r/unpack/b'',
        OsUnlink ''/r/batch/batch_metadata-000001.txt'']
   \<and> raised (process_batch sh_sed ''p'' ''data/tv/batch/batch_metadata-000001.txt'' ''dst''
      ''data/tv'' ''/r'' ''src'' ''unpack'' ''load'' ''batch'' batch_world) = Some CalledProcessError
   \<and> deletions (trace (world_of (process_batch sh_sed ''p''
      ''data/tv/batch/batch_metadata-000001.txt'' ''dst'' ''data/tv'' ''/r'' ''src'' ''unpack''
      ''load'' ''batch'' batch_world))) = []
   \<and> map fst (localfs (world_of (process_batch sh_sed ''p''
      ''data/tv/batch/batch_metadata-000001.txt'' ''dst'' ''data/tv'' ''/r'' ''src'' ''unpack''
      ''load'' ''batch'' batch_world)))
     = map fst staging_folders
       @ [''/r/batch/batch_metadata-000001.txt'', ''/r/src/a.tar.gz'', ''/r/unpack/a/out.log'',
          ''/r/load/outa.log'']"
  by code_simp


lemma sh_lex_in_single:
  "squote \<notin> set g \<Longrightarrow> sh_lex InSingle (Some a) (g @ squote # rest) = sh_lex Plain (Some (a @ g)) rest"
  by (induction g arbitrary: a) (auto simp: add_char_def)

lemma sh_lex_plain_word:
  "list_all plain_char d \<Longrightarrow> sh_lex Plain (Some a) d = Some [a @ d]"
  by (induction d arbitrary: a) (simp_all add: plain_char_def add_char_def)

lemma sh_lex_add_id_cmd:
  assumes "squote \<notin> set guid" and "list_all plain_char dest"
  shows "sh_lex Plain None (add_id_cmd guid dest)
     = Some [''sed'', ''-i'', ''-e'',
             ''s/{'' @ [bslash, dquote] @ ''frame'' @ [bslash, dquote] @ ''/{'' @ [dquote] @ ''id''
               @ [dquote] @ '': '' @ [bslash, dquote] @ guid @ [bslash, dquote] @ '', ''
               @ [bslash, dquote] @ ''frame'' @ [bslash, dquote] @ ''/g'' @ dest]"
proof -
  define script where "script = ''s/{'' @ [bslash, dquote] @ ''frame'' @ [bslash, dquote] @ ''/{''
      @ [dquote] @ ''id'' @ [dquote] @ '': '' @ [bslash, dquote] @ guid @ [bslash, dquote] @ '', ''
      @ [bslash, dquote] @ ''frame'' @ [bslash, dquote] @ ''/g''"
  have q: "squote \<notin> set script"
    using assms(1) by (simp add: script_def squote_def bslash_def dquote_def)
  have cmd: "add_id_cmd guid dest = ''sed -i -e '' @ squote # (script @ squote # dest)"
    by (simp add: add_id_cmd_def script_def)
  have "sh_lex Plain None (''sed -i -e '' @ squote # rest)
      = map_option (\<lambda>ws. ''sed'' # ''-i'' # ''-e'' # ws) (sh_lex InSingle (Some []) rest)" for rest
    by (simp add: squote_def dquote_def bslash_def sh_special_def add_char_def open_word_def
        option.map_comp comp_def)
  then have "sh_lex Plain None (add_id_cmd guid dest)
      = map_option (\<lambda>ws. ''sed'' # ''-i'' # ''-e'' # ws) (sh_lex Plain (Some script) dest)"
    unfolding cmd by (simp add: sh_lex_in_single [OF q])
  then show ?thesis
    by (simp add: sh_lex_plain_word [OF assms(2)] script_def)
qed

lemma sed_main_no_input: "sed_main [''-i'', ''-e'', script] w = Raised CalledProcessError w"
  by (simp add: sed_main_def split: option.splits)

text \<open>
  C5 on the code. For an identifier without a single quote and a destination path of
  plain characters, the command line of \<open>add_id_column\<close> is four words: the file name is
  glued to the \<open>sed\<close> script, so \<open>sed\<close> gets no input file (and a script with text after
  its flags), exits with an error, and \<open>add_id_column\<close> raises: no line is ever rewritten.
\<close>

theorem add_id_column_never_returns:
  assumes "squote \<notin> set guid" and "list_all plain_char dest"
  shows "sh_lex Plain None (add_id_cmd guid dest)
           = Some [''sed'', ''-i'', ''-e'',
               ''s/{'' @ [bslash, dquote] @ ''frame'' @ [bslash, dquote] @ ''/{'' @ [dquote] @ ''id''
                 @ [dquote] @ '': '' @ [bslash, dquote] @ guid @ [bslash, dquote] @ '', ''
                 @ [bslash, dquote] @ ''frame'' @ [bslash, dquote] @ ''/g'' @ dest]
       \<and> sh_sed (add_id_cmd guid dest) w = Raised CalledProcessError w
       \<and> (\<exists>e w'. add_id_column sh_sed src dest guid w = Raised e w')"
proof -
  note lex = sh_lex_add_id_cmd [OF assms]
  have sed: "sh_sed (add_id_cmd guid dest) w1 = Raised CalledProcessError w1" for w1
    unfolding sh_sed_def lex by (simp add: sed_main_no_input)
  have "\<exists>e w'. add_id_column sh_sed src dest guid w = Raised e w'"
    by (cases "shutil_copyfile src dest w") (simp_all add: add_id_column_def check_call_def sed)
  with lex sed show ?thesis by blast
qed

theorem add_id_column_never_returns_witness:
  "squote \<notin> set ''g1'' \<and> list_all plain_char ''/r/load/outg1.log''
   \<and> sh_sed (add_id_cmd ''g1'' ''/r/load/outg1.log'') add_id_world
       = Raised CalledProcessError add_id_world
   \<and> (\<exists>e w'. add_id_column sh_sed ''/r/unpack/g1/out.log'' ''/r/load/outg1.log'' ''g1''
                add_id_world = Raised e w')"
proof -
  have a: "squote \<notin> set ''g1''" by (simp add: squote_def)
  have b: "list_all plain_char ''/r/load/outg1.log''"
    by (simp add: plain_char_def squote_def dquote_def bslash_def sh_special_def)
  from add_id_column_never_returns [OF a b, of add_id_world "''/r/unpack/g1/out.log''"] a b
  show ?thesis by blast
qed


text \<open>An iteration of the loop of \<open>process_batch\<close> that completes has deleted the
  manifest, whatever the shell does.\<close>

lemma run_steps_last:
  "run_steps (fs @ [g]) w = Done u w' \<Longrightarrow> \<exists>w1. g w1 = Done () w'"
proof (induction fs arbitrary: w)
  case Nil
  then show ?case by (cases "g w") auto
next
  case (Cons f fs)
  then show ?case by (cases "f w") auto
qed

lemma os_unlink_gone: "os_unlink p w = Done u w' \<Longrightarrow> map_of (localfs w') p = None"
  by (auto simp: os_unlink_def Let_def log_event_def fs_remove_def map_of_eq_None_iff
      split: option.splits node.splits if_splits)

lemma process_batch_body_unlinks_manifest:
  assumes "process_batch_body sh pid tb gp root sf uf lf rows mf src u w = Done u' w'"
  shows "map_of (localfs w') mf = None"
proof (cases "find (\<lambda>r. fst r = src) rows")
  case None
  with assms show ?thesis by (simp add: process_batch_body_def)
next
  case (Some r)
  from assms obtain steps where "run_steps (steps @ [os_unlink mf]) w = Done u' w'"
    unfolding process_batch_body_def Let_def Some option.case
    by (metis append_Cons append_Nil)
  then obtain w1 where "os_unlink mf w1 = Done () w'" using run_steps_last by blast
  then show ?thesis by (rule os_unlink_gone)
qed

section \<open>The retry wrapper\<close>

lemma retry_from_raising:
  "(\<forall>v. \<exists>e v'. f v = Raised e v') \<Longrightarrow>
   \<exists>n' e w'. retry_from m d el f n w = (n', Raised e w')
      \<and> n \<le> n' \<and> (n \<le> m \<longrightarrow> n' \<le> m) \<and> (m \<le> n' \<or> d \<le> el n')
      \<and> (\<forall>k. n \<le> k \<and> k < n' \<longrightarrow> el k < d \<and> k < m)
      \<and> f (((\<lambda>v. world_of (f v)) ^^ (n' - n)) w) = Raised e w'"
proof (induction m d el f n w rule: retry_from.induct)
  case (1 m d el f n w)
  from "1.prems" obtain e w1 where fw: "f w = Raised e w1" by blast
  show ?case
  proof (cases "m \<le> n \<or> d \<le> el n")
    case True
    then have "retry_from m d el f n w = (n, Raised e w1)"
      by (subst retry_from.simps) (simp add: fw del: retry_from.simps)
    with True fw show ?thesis by auto
  next
    case False
    from "1.IH" [OF fw False "1.prems"] obtain n' e' w' where
      r: "retry_from m d el f (Suc n) w1 = (n', Raised e' w')"
      and b: "Suc n \<le> n'" "Suc n \<le> m \<longrightarrow> n' \<le> m" "m \<le> n' \<or> d \<le> el n'"
      and q: "\<forall>k. Suc n \<le> k \<and> k < n' \<longrightarrow> el k < d \<and> k < m"
      and l: "f (((\<lambda>v. world_of (f v)) ^^ (n' - Suc n)) w1) = Raised e' w'"
      by blast
    have step: "retry_from m d el f n w = (n', Raised e' w')"
      using False by (subst retry_from.simps) (simp add: fw r del: retry_from.simps)
    have "n' - n = Suc (n' - Suc n)" using b(1) by simp
    then have "((\<lambda>v. world_of (f v)) ^^ (n' - n)) w
        = ((\<lambda>v. world_of (f v)) ^^ (n' - Suc n)) (world_of (f w))"
      by (simp only: funpow_Suc_right comp_def)
    then have last: "f (((\<lambda>v. world_of (f v)) ^^ (n' - n)) w) = Raised e' w'"
      using l by (simp add: fw world_of_def)
    have early: "\<forall>k. n \<le> k \<and> k < n' \<longrightarrow> el k < d \<and> k < m"
    proof (intro allI impI)
      fix k assume k: "n \<le> k \<and> k < n'"
      show "el k < d \<and> k < m"
      proof (cases "k = n")
        case True
        then show ?thesis using False by simp
      next
        case False
        then have "Suc n \<le> k \<and> k < n'" using k by simp
        then show ?thesis using q by blast
      qed
    qed
    have "n \<le> n'" "n \<le> m \<longrightarrow> n' \<le> m" using b False by simp_all
    with step b(3) early last show ?thesis by blast
  qed
qed

text \<open>
  C8. For an inner call that raises on every attempt, the retry wrapper makes \<open>n\<close>
  attempts with \<open>1 \<le> n \<le> 7\<close>; it has stopped by attempt \<open>k\<close> if the time elapsed after
  attempt \<open>k\<close> exceeds 300000 ms; it stops only at the seventh attempt or once the budget is
  reached; and what the caller gets is the error raised by the last attempt.
\<close>

theorem retry_stops_and_propagates:
  assumes "\<forall>v. \<exists>e v'. f v = Raised e v'"
  shows "\<exists>n e w'. retry elapsed f w = (n, Raised e w')
           \<and> 1 \<le> n \<and> n \<le> 7
           \<and> (\<forall>k. 1 \<le> k \<and> 300000 < elapsed k \<longrightarrow> n \<le> k)
           \<and> (n = 7 \<or> 300000 \<le> elapsed n)
           \<and> f (world_before f n w) = Raised e w'"
proof -
  from retry_from_raising [OF assms, of 7 300000 elapsed 1 w] obtain n e w' where
    r: "retry_from 7 300000 elapsed f 1 w = (n, Raised e w')"
    and b: "1 \<le> n" "n \<le> 7" "7 \<le> n \<or> 300000 \<le> elapsed n"
    and q: "\<forall>k. 1 \<le> k \<and> k < n \<longrightarrow> elapsed k < 300000 \<and> k < 7"
    and l: "f (((\<lambda>v. world_of (f v)) ^^ (n - 1)) w) = Raised e w'"
    by auto
  have early: "\<forall>k. 1 \<le> k \<and> 300000 < elapsed k \<longrightarrow> n \<le> k"
  proof (intro allI impI)
    fix k assume k: "1 \<le> k \<and> 300000 < elapsed k"
    show "n \<le> k"
    proof (rule ccontr)
      assume "\<not> n \<le> k"
      then have "1 \<le> k \<and> k < n" using k by simp
      then have "elapsed k < 300000" using q by blast
      with k show False by simp
    qed
  qed
  have "n = 7 \<or> 300000 \<le> elapsed n" using b by auto
  with r b(1,2) early l show ?thesis
    unfolding retry_def world_before_def by blast
qed

lemma retry_failing_example:
  "retry (\<lambda>k. 200000 * int k) failing_call batch_world
     = (2, Raised NotFound (log_event (GcsList ''dst'' []) (log_event (GcsList ''dst'' []) batch_world)))"
  by (simp add: retry_def failing_call_def)

lemma retry_failing_example_fast:
  "fst (retry (\<lambda>k. int k) failing_call batch_world) = 7"
  by (simp add: retry_def failing_call_def)

theorem retry_stops_and_propagates_witness:
  "(\<forall>v. \<exists>e v'. failing_call v = Raised e v')
   \<and> (\<exists>n e w'. retry (\<lambda>k. 200000 * int k) failing_call batch_world = (n, Raised e w')
           \<and> 1 \<le> n \<and> n \<le> 7
           \<and> (\<forall>k. 1 \<le> k \<and> 300000 < 200000 * int k \<longrightarrow> n \<le> k)
           \<and> (n = 7 \<or> 300000 \<le> 200000 * int n)
           \<and> failing_call (world_before failing_call n batch_world) = Raised e w')
   \<and> fst (retry (\<lambda>k. 200000 * int k) failing_call batch_world) = 2"
proof -
  have a: "\<forall>v. \<exists>e v'. failing_call v = Raised e v'" by (simp add: failing_call_def)
  from retry_stops_and_propagates [OF a, of "\<lambda>k. 200000 * int k" batch_world] a
  show ?thesis by (simp add: retry_failing_example)
qed

end
